theory Spec2Isabelle
  imports Complex_Main "HOL-Library.Log_Nat"
begin

section \<open>SeismicMatch: the template matcher (\<open>seismic_match/template_matching.py\<close>)\<close>

text \<open>
  Python integers are modelled as \<open>int\<close>, array lengths and indices as \<open>nat\<close>, and
  array samples as \<open>real\<close>: the rounding of \<open>float32\<close>/\<open>float64\<close> array arithmetic is
  not part of the model. The true division of two integers in the chunk planner is
  modelled with its rounding to a double. Every exception the modelled code can raise
  is a value of \<open>py_error\<close>, returned as \<open>Inl\<close>.
\<close>

datatype py_error =
  ZeroDivisionError | OverflowError | ValueError | IndexError | NameError | OutOfMemoryError

subsection \<open>Chunk planner: \<open>find_optimal_chunksize\<close>\<close>

text \<open>
  \<^verbatim>\<open>N / chunk\<close> on two integers is a true division: it raises \<open>ZeroDivisionError\<close> on a
  zero divisor and otherwise yields the double nearest to the exact quotient, with 53
  significant bits and ties going to the even significand, or raises \<open>OverflowError\<close>
  when that double would be \<open>2^1024\<close> or more. The quotient \<open>a / b\<close> of two positive
  integers lies in the binade \<open>2^e \<le> a / b < 2^(e + 1)\<close> with \<open>e = binade a b\<close>, found
  from the bit lengths of \<open>a\<close> and \<open>b\<close>.
\<close>

definition binade :: "int \<Rightarrow> int \<Rightarrow> int" where
  "binade a b =
     (let d = bitlen a - bitlen b in
      if b * 2 ^ nat d \<le> a * 2 ^ nat (- d) then d else d - 1)"

text \<open>
  The double nearest to \<open>a / b\<close> for positive \<open>a\<close> and \<open>b\<close>, as the pair \<open>(m, s)\<close> that
  stands for \<open>m / 2^s\<close>: doubles of the binade \<open>e\<close> are the multiples of \<open>2^(e - 52)\<close>, those
  below \<open>2^(-1022)\<close> the multiples of \<open>2^(-1074)\<close>, and \<open>m\<close> is the quotient in this unit,
  rounded to the nearest integer, a tie to the even one.
\<close>

definition float_quot :: "int \<Rightarrow> int \<Rightarrow> int \<times> int" where
  "float_quot a b =
     (let s = 52 - max (binade a b) (- 1022);
          num = a * 2 ^ nat s;
          den = b * 2 ^ nat (- s);
          q = num div den;
          r = num mod den
      in (if 2 * r < den \<or> (2 * r = den \<and> even q) then q else q + 1, s))"

text \<open>Whether the double \<open>m / 2^s\<close> is out of range, and \<^verbatim>\<open>int(x)\<close> of a double
  \<open>x = m / 2^s \<ge> 0\<close>: the digits after the point are dropped.\<close>

definition float_overflow :: "int \<times> int \<Rightarrow> bool" where
  "float_overflow x = (case x of (m, s) \<Rightarrow> 2 ^ 1024 * 2 ^ nat s \<le> m * 2 ^ nat (- s))"

definition float_trunc :: "int \<times> int \<Rightarrow> int" where
  "float_trunc x = (case x of (m, s) \<Rightarrow> m * 2 ^ nat (- s) div 2 ^ nat s)"

text \<open>\<^verbatim>\<open>int(N / chunk)\<close>: the true division, then the truncation toward zero. The rounding
  and the truncation are symmetric in the sign.\<close>

definition int_truediv :: "int \<Rightarrow> int \<Rightarrow> py_error + int" where
  "int_truediv a b =
     (if b = 0 then Inl ZeroDivisionError
      else if a = 0 then Inr 0
      else let x = float_quot \<bar>a\<bar> \<bar>b\<bar> in
           if float_overflow x then Inl OverflowError
           else Inr (sgn a * sgn b * float_trunc x))"

text \<open>\<^verbatim>\<open>N % chunk > 0\<close> used as a summand: Python's \<open>%\<close> takes the sign of the divisor,
  as \<open>mod\<close> on \<open>int\<close> does, and \<open>True\<close> counts as 1.\<close>

definition py_mod_pos :: "int \<Rightarrow> int \<Rightarrow> py_error + int" where
  "py_mod_pos a b =
     (if b = 0 then Inl ZeroDivisionError
      else Inr (if a mod b > 0 then 1 else 0))"

text \<open>One expression \<^verbatim>\<open>int(a / b) + (a % b > 0)\<close>, evaluated left to right.\<close>

definition quot_round_up :: "int \<Rightarrow> int \<Rightarrow> py_error + int" where
  "quot_round_up a b =
     (case int_truediv a b of
        Inl e \<Rightarrow> Inl e
      | Inr q \<Rightarrow> (case py_mod_pos a b of
                   Inl e \<Rightarrow> Inl e
                 | Inr r \<Rightarrow> Inr (q + r)))"

definition find_optimal_chunksize :: "int \<Rightarrow> int \<Rightarrow> py_error + int" where
  "find_optimal_chunksize chunk N =
     (case quot_round_up N chunk of
        Inl e \<Rightarrow> Inl e
      | Inr n_it \<Rightarrow> quot_round_up N n_it)"

subsection \<open>Normalizer: \<open>pad_zeros\<close> and \<open>window_sum\<close>\<close>

text \<open>
  \<^verbatim>\<open>pad_zeros(a, M, num, num2=None)\<close> allocates \<open>M + num + num2\<close> zeros and assigns
  \<open>a\<close> to the slice of length \<open>M\<close> after the first \<open>num\<close> entries. The slice
  assignment broadcasts a one-element array and raises \<open>ValueError\<close> for any other
  length different from \<open>M\<close>.
\<close>

definition pad_zeros :: "real list \<Rightarrow> nat \<Rightarrow> nat \<Rightarrow> nat option \<Rightarrow> py_error + real list" where
  "pad_zeros a M num num2_opt =
     (let num2 = (case num2_opt of None \<Rightarrow> num | Some k \<Rightarrow> k) in
      if length a = M then Inr (replicate num 0 @ a @ replicate num2 0)
      else if length a = 1 then Inr (replicate num 0 @ replicate M (hd a) @ replicate num2 0)
      else Inl ValueError)"

text \<open>
  \<^verbatim>\<open>convolve(a, v, 'valid')\<close>: the operands are swapped when \<open>v\<close> is the longer one,
  an empty operand raises \<open>ValueError\<close>, and entry \<open>i\<close> of the result is
  \<open>\<Sum>j. a[i + j] * v[len(v) - 1 - j]\<close>, for the \<open>len(a) - len(v) + 1\<close> full overlaps.
\<close>

definition convolve_valid :: "real list \<Rightarrow> real list \<Rightarrow> py_error + real list" where
  "convolve_valid a v =
     (let a' = (if length v > length a then v else a);
          v' = (if length v > length a then a else v)
      in if a' = [] \<or> v' = [] then Inl ValueError
         else Inr (map (\<lambda>i. \<Sum>j\<leftarrow>[0..<length v']. a' ! (i + j) * v' ! (length v' - 1 - j))
                       [0..<length a' - length v' + 1]))"

definition window_sum :: "real list \<Rightarrow> nat \<Rightarrow> py_error + real list" where
  "window_sum data window_len =
     (case convolve_valid data (replicate window_len 1) of
        Inl e \<Rightarrow> Inl e
      | Inr w \<Rightarrow> Inr (drop 1 w))"

text \<open>The local energy as \<open>matrix_cc\<close> computes it for one data trace
  (\<open>pad = 1\<close>, so one zero in front and none behind).\<close>

definition data_norm :: "real list \<Rightarrow> nat \<Rightarrow> py_error + real list" where
  "data_norm data_tr N =
     (let M = length data_tr; pad = (1::nat); pad1 = (pad + 1) div 2; pad2 = pad div 2 in
      case pad_zeros data_tr M pad1 (Some pad2) of
        Inl e \<Rightarrow> Inl e
      | Inr padded_tr \<Rightarrow> window_sum (map (\<lambda>x. x ^ 2) padded_tr) N)"

subsection \<open>Normalisation and the safety check of \<open>matrix_cc\<close>\<close>

text \<open>
  The element type of an array decides two things in \<open>matrix_cc\<close>: the machine epsilon
  \<^verbatim>\<open>finfo(norm.dtype).eps\<close> and the branch \<^verbatim>\<open>cc.dtype == float\<close> (true for \<open>float64\<close>).
\<close>

datatype dtype = Float32 | Float64

fun finfo_eps :: "dtype \<Rightarrow> real" where
  "finfo_eps Float32 = 1 / 2 ^ 23"
| "finfo_eps Float64 = 1 / 2 ^ 52"

text \<open>
  An array division does not raise on a zero divisor: it stores \<open>nan\<close> for \<open>0 / 0\<close>
  and a signed infinity otherwise. The divisors of \<open>matrix_cc\<close> are square roots, so a
  zero divisor is \<open>+0\<close>.
\<close>

datatype fnum = Fin real | PosInf | NegInf | NaN

definition fdiv :: "real \<Rightarrow> real \<Rightarrow> fnum" where
  "fdiv x d =
     (if d \<noteq> 0 then Fin (x / d)
      else if x = 0 then NaN
      else if 0 < x then PosInf else NegInf)"

text \<open>
  Lines 321 to 330: \<open>norm\<close>, the mask and the two ways of dividing. With a \<open>float64\<close>
  correlation only the unmasked lags are divided and the masked ones keep their value;
  otherwise every lag is divided and the masked ones are overwritten with 0. A boolean
  index or an operand of another length raises.
\<close>

definition normalize_cc ::
  "dtype \<Rightarrow> dtype \<Rightarrow> nat \<Rightarrow> real list \<Rightarrow> real list \<Rightarrow> real list \<Rightarrow> py_error + fnum list" where
  "normalize_cc cc_dtype norm_dtype N dnorm temp_tr cc =
     (let te = (\<Sum>x\<leftarrow>temp_tr. x ^ 2);
          norm = map (\<lambda>e. sqrt (e * te)) dnorm;
          mask = map (\<lambda>e. e \<le> sqrt (finfo_eps norm_dtype * real N)) dnorm
      in if cc_dtype = Float64 then
           (if length cc \<noteq> length mask then Inl IndexError
            else Inr (map (\<lambda>(c, n, m). if m then Fin c else fdiv c n) (zip cc (zip norm mask))))
         else
           (if length cc \<noteq> length norm
            then Inl (if length norm = 1 then IndexError else ValueError)
            else Inr (map (\<lambda>(q, m). if m then Fin 0 else q)
                          (zip (map (\<lambda>(c, n). fdiv c n) (zip cc norm)) mask))))"

text \<open>\<^verbatim>\<open>cp.abs(x) > b\<close> on an array element: false for \<open>nan\<close>, true for an infinity.\<close>

fun fabs_gt :: "fnum \<Rightarrow> real \<Rightarrow> bool" where
  "fabs_gt (Fin r) b = (b < \<bar>r\<bar>)"
| "fabs_gt PosInf b = True"
| "fabs_gt NegInf b = True"
| "fabs_gt NaN b = False"

text \<open>Lines 333 to 337: the result is the flag "the warning was printed" and the
  sequence with the offending lags set to 0.\<close>

definition cc_safety_check :: "fnum list \<Rightarrow> bool \<times> fnum list" where
  "cc_safety_check cc =
     (let mask = map (\<lambda>x. fabs_gt x 1.01) cc in
      if list_ex id mask
      then (True, map (\<lambda>(x, m). if m then Fin 0 else x) (zip cc mask))
      else (False, cc))"

subsection \<open>Peak detector: \<open>find_peaks\<close>\<close>

record config =
  cc_threshold :: real
  mad_threshold :: real
  combine_thresholds :: bool

text \<open>\<^verbatim>\<open>median\<close> of an array: \<open>nan\<close> (here \<open>None\<close>) for an empty one, the middle of the sorted
  values for an odd length, the mean of the two middle values for an even length.\<close>

definition np_median :: "real list \<Rightarrow> real option" where
  "np_median xs =
     (if xs = [] then None
      else let s = sort xs; n = length xs in
           Some (if odd n then s ! (n div 2)
                 else (s ! (n div 2 - 1) + s ! (n div 2)) / 2))"

definition daily_mad :: "real list \<Rightarrow> real option" where
  "daily_mad day_cc =
     (case np_median day_cc of
        None \<Rightarrow> None
      | Some median \<Rightarrow> np_median (map (\<lambda>x. \<bar>x - median\<bar>) day_cc))"

text \<open>The water level: \<^verbatim>\<open>if mad == 0: mad = 1e-6\<close>; \<open>nan == 0\<close> is false.\<close>

definition water_level :: "real option \<Rightarrow> real option" where
  "water_level mad =
     (case mad of None \<Rightarrow> None | Some m \<Rightarrow> Some (if m = 0 then 1 / 10 ^ 6 else m))"

text \<open>\<^verbatim>\<open>max([a, b])\<close> and \<^verbatim>\<open>min([a, b])\<close> keep \<open>a\<close> unless \<open>b\<close> compares greater (smaller),
  which a \<open>nan\<close> never does.\<close>

definition local_threshold :: "config \<Rightarrow> real option \<Rightarrow> real" where
  "local_threshold cfg mad =
     (case mad of
        None \<Rightarrow> cc_threshold cfg
      | Some m \<Rightarrow>
          if combine_thresholds cfg
          then max (cc_threshold cfg) (mad_threshold cfg * m)
          else min (cc_threshold cfg) (mad_threshold cfg * m))"

text \<open>\<^verbatim>\<open>where(abs_cc >= local_threshold)[0]\<close> and \<^verbatim>\<open>where(peaks)[0]\<close>: ascending indices.\<close>

definition where_ge :: "real list \<Rightarrow> real \<Rightarrow> nat list" where
  "where_ge abs_cc thr = filter (\<lambda>k. thr \<le> abs_cc ! k) [0..<length abs_cc]"

definition where_true :: "bool list \<Rightarrow> nat list" where
  "where_true peaks = filter (\<lambda>k. peaks ! k) [0..<length peaks]"

text \<open>
  The inner \<open>while\<close> loop of lines 244 to 255, from position \<open>x\<close> with running maximum
  \<open>p\<close>. \<open>it\<close> is what the iterator over \<open>tops\<close> still holds; \<open>next(it)\<close> drops its head,
  and on an exhausted iterator the loop is left. The result is the \<open>peaks\<close> array and
  the iterator as the \<open>for\<close> loop finds it.
\<close>

fun run_while :: "real \<Rightarrow> real list \<Rightarrow> real \<Rightarrow> nat \<Rightarrow> bool list \<Rightarrow> nat list \<Rightarrow> bool list \<times> nat list" where
  "run_while thr abs_cc p x peaks [] =
     (if x + 1 < length abs_cc then
        if abs_cc ! (x + 1) < thr then (peaks, [])
        else if p < abs_cc ! (x + 1) then (peaks[x := False, x + 1 := True], [])
        else (peaks, [])
      else (peaks, []))"
| "run_while thr abs_cc p x peaks (y # it) =
     (if x + 1 < length abs_cc then
        if abs_cc ! (x + 1) < thr then (peaks, y # it)
        else if p < abs_cc ! (x + 1)
          then run_while thr abs_cc (abs_cc ! (x + 1)) (x + 1) (peaks[x := False, x + 1 := True]) it
          else run_while thr abs_cc p (x + 1) peaks it
      else (peaks, y # it))"

text \<open>The \<open>for x in it\<close> loop of lines 237 to 255.\<close>

function for_tops :: "real \<Rightarrow> real list \<Rightarrow> bool list \<Rightarrow> nat list \<Rightarrow> bool list" where
  "for_tops thr abs_cc peaks [] = peaks"
| "for_tops thr abs_cc peaks (x # it) =
     (if abs_cc ! x < thr then peaks
      else case run_while thr abs_cc (abs_cc ! x) x (peaks[x := True]) it of
             (peaks', it') \<Rightarrow> for_tops thr abs_cc peaks' it')"
  by pat_completeness auto
termination
proof (relation "measure (\<lambda>(thr, abs_cc, peaks, it). length it)")
  show "wf (measure (\<lambda>(thr, abs_cc, peaks, it). length it))" by simp
next
  fix thr :: real and abs_cc :: "real list" and peaks :: "bool list" and x :: nat
    and it :: "nat list" and peaks' :: "bool list" and it' :: "nat list"
  assume r: "(peaks', it') = run_while thr abs_cc (abs_cc ! x) x (peaks[x := True]) it"
  have len: "length (snd (run_while t a p k ps js)) \<le> length js"
    for t a p k ps js
    by (induction t a p k ps js rule: run_while.induct) (auto simp: le_Suc_eq)
  from r have "it' = snd (run_while thr abs_cc (abs_cc ! x) x (peaks[x := True]) it)"
    by (metis snd_conv)
  with len[of thr abs_cc "abs_cc ! x" x "peaks[x := True]" it]
  show "((thr, abs_cc, peaks', it'), (thr, abs_cc, peaks, x # it))
          \<in> measure (\<lambda>(thr, abs_cc, peaks, it). length it)"
    by simp
qed

text \<open>
  \<^verbatim>\<open>peaks[start:stop] = False\<close>. A slice bound below zero counts from the end of the
  array and is clipped to 0 only when it is still negative then; a bound beyond the
  end is clipped to the length.
\<close>

definition slice_bound :: "nat \<Rightarrow> int \<Rightarrow> nat" where
  "slice_bound n i = (if i < 0 then nat (max 0 (i + int n)) else min (nat i) n)"

definition clear_slice :: "bool list \<Rightarrow> int \<Rightarrow> int \<Rightarrow> bool list" where
  "clear_slice peaks start stop =
     map (\<lambda>k. if slice_bound (length peaks) start \<le> k \<and> k < slice_bound (length peaks) stop
                then False else peaks ! k)
         [0..<length peaks]"

text \<open>Lines 258 to 263: the candidates in the order of \<open>sorted\<close>, each one still set
  clearing the slice around itself.\<close>

fun exclude_close :: "nat \<Rightarrow> bool list \<Rightarrow> nat list \<Rightarrow> bool list" where
  "exclude_close distance peaks [] = peaks"
| "exclude_close distance peaks (x # xs) =
     (if \<not> peaks ! x then exclude_close distance peaks xs
      else exclude_close distance
             ((clear_slice peaks (int x - int distance) (int x + int distance))[x := True]) xs)"

text \<open>\<^verbatim>\<open>sorted(tops, key=lambda x: abs_cc[x], reverse=True)\<close>: descending in the key, and
  candidates of equal key stay in their order.\<close>

definition sorted_by_cc :: "real list \<Rightarrow> nat list \<Rightarrow> nat list" where
  "sorted_by_cc abs_cc tops = sort_key (\<lambda>x. - (abs_cc ! x)) tops"

definition find_peaks :: "config \<Rightarrow> real list \<Rightarrow> nat \<Rightarrow> nat list \<times> real list \<times> fnum list" where
  "find_peaks cfg day_cc distance =
     (let abs_cc = map abs day_cc;
          cc_len = length day_cc;
          mad = water_level (daily_mad day_cc);
          thr = local_threshold cfg mad;
          tops = where_ge abs_cc thr;
          peaks = for_tops thr abs_cc (replicate cc_len False) tops;
          peaks = exclude_close distance peaks (sorted_by_cc abs_cc (where_true peaks));
          tops = where_true peaks;
          cc_values = map (\<lambda>k. day_cc ! k) tops;
          mad_values = (case mad of
                          None \<Rightarrow> map (\<lambda>v. NaN) cc_values
                        | Some m \<Rightarrow> map (\<lambda>v. fdiv v m) cc_values)
      in (tops, cc_values, mad_values))"

subsection \<open>Peak detector on a sequence that holds \<open>nan\<close>\<close>

text \<open>
  A division of zero by zero leaves \<open>nan\<close> in the correlation sequence, and the safety
  check of \<open>matrix_cc\<close> does not remove it. \<open>find_peaks\<close> then runs on a sequence whose
  entries are numbers or \<open>nan\<close> (\<open>None\<close>). Modelled from the library's documentation:
  numpy's \<open>median\<close> of an array that holds \<open>nan\<close> is \<open>nan\<close>. So both medians are \<open>nan\<close>,
  \<^verbatim>\<open>mad == 0\<close> is false, \<open>max\<close> and \<open>min\<close> keep \<open>cc_threshold\<close>, and every MAD ratio is
  \<open>nan\<close>. In the lines 233 to 247 a comparison with a \<open>nan\<close> entry is false.
\<close>

definition nan_ge :: "real option \<Rightarrow> real \<Rightarrow> bool" where
  "nan_ge v t = (case v of None \<Rightarrow> False | Some r \<Rightarrow> t \<le> r)"

definition nan_lt :: "real option \<Rightarrow> real \<Rightarrow> bool" where
  "nan_lt v t = (case v of None \<Rightarrow> False | Some r \<Rightarrow> r < t)"

definition nan_gt :: "real option \<Rightarrow> real option \<Rightarrow> bool" where
  "nan_gt v p = (case (v, p) of (Some r, Some q) \<Rightarrow> q < r | _ \<Rightarrow> False)"

definition where_ge_nan :: "real option list \<Rightarrow> real \<Rightarrow> nat list" where
  "where_ge_nan abs_cc thr = filter (\<lambda>k. nan_ge (abs_cc ! k) thr) [0..<length abs_cc]"

text \<open>The loops of lines 237 to 255 as in \<open>run_while\<close> and \<open>for_tops\<close>. A \<open>nan\<close> entry
  does not end the \<open>while\<close> loop, and \<open>next(it)\<close> drops a candidate for it.\<close>

fun run_while_nan ::
  "real \<Rightarrow> real option list \<Rightarrow> real option \<Rightarrow> nat \<Rightarrow> bool list \<Rightarrow> nat list
     \<Rightarrow> bool list \<times> nat list" where
  "run_while_nan thr abs_cc p x peaks [] =
     (if x + 1 < length abs_cc then
        if nan_lt (abs_cc ! (x + 1)) thr then (peaks, [])
        else if nan_gt (abs_cc ! (x + 1)) p then (peaks[x := False, x + 1 := True], [])
        else (peaks, [])
      else (peaks, []))"
| "run_while_nan thr abs_cc p x peaks (y # it) =
     (if x + 1 < length abs_cc then
        if nan_lt (abs_cc ! (x + 1)) thr then (peaks, y # it)
        else if nan_gt (abs_cc ! (x + 1)) p
          then run_while_nan thr abs_cc (abs_cc ! (x + 1)) (x + 1)
                 (peaks[x := False, x + 1 := True]) it
          else run_while_nan thr abs_cc p (x + 1) peaks it
      else (peaks, y # it))"

function for_tops_nan :: "real \<Rightarrow> real option list \<Rightarrow> bool list \<Rightarrow> nat list \<Rightarrow> bool list" where
  "for_tops_nan thr abs_cc peaks [] = peaks"
| "for_tops_nan thr abs_cc peaks (x # it) =
     (if nan_lt (abs_cc ! x) thr then peaks
      else case run_while_nan thr abs_cc (abs_cc ! x) x (peaks[x := True]) it of
             (peaks', it') \<Rightarrow> for_tops_nan thr abs_cc peaks' it')"
  by pat_completeness auto
termination
proof (relation "measure (\<lambda>(thr, abs_cc, peaks, it). length it)")
  show "wf (measure (\<lambda>(thr, abs_cc, peaks, it). length it))" by simp
next
  fix thr :: real and abs_cc :: "real option list" and peaks :: "bool list" and x :: nat
    and it :: "nat list" and peaks' :: "bool list" and it' :: "nat list"
  assume r: "(peaks', it') = run_while_nan thr abs_cc (abs_cc ! x) x (peaks[x := True]) it"
  have len: "length (snd (run_while_nan t a p k ps js)) \<le> length js"
    for t a p k ps js
    by (induction t a p k ps js rule: run_while_nan.induct) (auto simp: le_Suc_eq)
  from r have "it' = snd (run_while_nan thr abs_cc (abs_cc ! x) x (peaks[x := True]) it)"
    by (metis snd_conv)
  with len[of thr abs_cc "abs_cc ! x" x "peaks[x := True]" it]
  show "((thr, abs_cc, peaks', it'), (thr, abs_cc, peaks, x # it))
          \<in> measure (\<lambda>(thr, abs_cc, peaks, it). length it)"
    by simp
qed

text \<open>The key of \<open>sorted\<close> in line 258. The marks are on lags that hold a number (they
  reach the threshold), so that no key is \<open>nan\<close>.\<close>

definition sorted_by_cc_nan :: "real option list \<Rightarrow> nat list \<Rightarrow> nat list" where
  "sorted_by_cc_nan abs_cc tops =
     sort_key (\<lambda>x. case abs_cc ! x of Some r \<Rightarrow> - r | None \<Rightarrow> 0) tops"

definition find_peaks_nan ::
  "config \<Rightarrow> real option list \<Rightarrow> nat \<Rightarrow> nat list \<times> fnum list \<times> fnum list" where
  "find_peaks_nan cfg day_cc distance =
     (let abs_cc = map (map_option abs) day_cc;
          cc_len = length day_cc;
          thr = local_threshold cfg None;
          tops = where_ge_nan abs_cc thr;
          peaks = for_tops_nan thr abs_cc (replicate cc_len False) tops;
          peaks = exclude_close distance peaks (sorted_by_cc_nan abs_cc (where_true peaks));
          tops = where_true peaks;
          cc_values = map (\<lambda>k. case day_cc ! k of Some r \<Rightarrow> Fin r | None \<Rightarrow> NaN) tops;
          mad_values = map (\<lambda>v. NaN) cc_values
      in (tops, cc_values, mad_values))"

subsection \<open>\<open>matrix_cc\<close> and \<open>process_matches\<close>\<close>

text \<open>
  One line of a template's match file: the file, the start time of the data trace and
  the lag (the line prints \<open>data_start + lag / sample_rate\<close>), the correlation value,
  its ratio to the MAD and the amplitude ratio.
\<close>

record detection =
  det_file :: string
  det_start :: real
  det_lag :: nat
  det_cc :: fnum
  det_mad :: fnum
  det_amp :: fnum

text \<open>
  \<open>process_matches\<close> appends one line for each tuple of \<^verbatim>\<open>zip(peaks, cc, mad, amps)\<close> and
  returns their number; the model returns the lines.
\<close>

definition process_matches ::
  "nat list \<Rightarrow> fnum list \<Rightarrow> fnum list \<Rightarrow> fnum list \<Rightarrow> real \<Rightarrow> string \<Rightarrow> detection list" where
  "process_matches peaks cc mad amps data_start template_file =
     map (\<lambda>(x, cc_c, x_mad, amp).
            \<lparr>det_file = template_file, det_start = data_start, det_lag = x,
             det_cc = cc_c, det_mad = x_mad, det_amp = amp\<rparr>)
         (zip peaks (zip cc (zip mad amps)))"

text \<open>What stops the processing of a chunk: a raised exception.\<close>

datatype halt = Raised py_error

text \<open>
  The correlation sequence as \<open>find_peaks\<close> receives it. After the safety check an entry
  is a number of absolute value at most 1.01 or \<open>nan\<close> (an infinity exceeds 1.01 and has
  been set to 0): \<open>finite_values\<close> gives the numbers when there is no \<open>nan\<close>, and
  \<open>nan_entries\<close> the entries otherwise.
\<close>

definition finite_values :: "fnum list \<Rightarrow> real list option" where
  "finite_values cc = those (map (\<lambda>x. case x of Fin r \<Rightarrow> Some r | _ \<Rightarrow> None) cc)"

definition nan_entries :: "fnum list \<Rightarrow> real option list" where
  "nan_entries cc = map (\<lambda>x. case x of Fin r \<Rightarrow> Some r | _ \<Rightarrow> None) cc"

text \<open>\<^verbatim>\<open>cp.max\<close> of an array raises \<open>ValueError\<close> on an empty one.\<close>

definition np_max :: "real list \<Rightarrow> py_error + real" where
  "np_max xs = (case xs of [] \<Rightarrow> Inl ValueError | x # r \<Rightarrow> Inr (fold max r x))"

text \<open>\<^verbatim>\<open>[cp.max(data_abs[idx:idx+N])/temp_amp for idx in peaks]\<close>\<close>

fun amp_ratios :: "real list \<Rightarrow> nat \<Rightarrow> real \<Rightarrow> nat list \<Rightarrow> py_error + fnum list" where
  "amp_ratios data_abs N temp_amp [] = Inr []"
| "amp_ratios data_abs N temp_amp (idx # peaks) =
     (case np_max (take N (drop idx data_abs)) of
        Inl e \<Rightarrow> Inl e
      | Inr m \<Rightarrow> (case amp_ratios data_abs N temp_amp peaks of
                   Inl e \<Rightarrow> Inl e
                 | Inr rs \<Rightarrow> Inr (fdiv m temp_amp # rs)))"

text \<open>
  A data trace of the chunk with what \<open>matrix_cc\<close> receives for it in parallel arrays:
  its samples (\<open>data[j]\<close>), its start time (\<open>t_data[j]\<close>) and, for the template row \<open>i\<close>
  and the lag \<open>k\<close>, the real part of the inverse transform of \<open>cc_matrix[i, j,]\<close>. The
  transforms are library calls on floating-point spectra; their values are a parameter
  of the model.
\<close>

record data_trace =
  tr_samples :: "real list"
  tr_start :: real
  tr_ifft :: "nat \<Rightarrow> nat \<Rightarrow> real"

text \<open>A row of \<open>templates\<close> with its entry of \<open>temp_files\<close>.\<close>

record template =
  tp_file :: string
  tp_samples :: "real list"

text \<open>The body of the loop over the templates (lines 319 to 346) for one data trace:
  the lines to append, or the exception raised before any was written.\<close>

definition pair_matches ::
  "config \<Rightarrow> dtype \<Rightarrow> dtype \<Rightarrow> nat \<Rightarrow> nat \<Rightarrow> data_trace \<Rightarrow> real list \<Rightarrow> nat \<times> template
     \<Rightarrow> halt + detection list" where
  "pair_matches cfg cc_dtype norm_dtype cc_len N d dnorm it =
     (case it of (i, tp) \<Rightarrow>
      let M = length (tr_samples d);
          data_abs = map abs (tr_samples d);
          cc = map (tr_ifft d i) [0..<min cc_len (M - N + 1)]
      in case np_max (map abs (tp_samples tp)) of
           Inl e \<Rightarrow> Inl (Raised e)
         | Inr temp_amp \<Rightarrow>
            (case normalize_cc cc_dtype norm_dtype N dnorm (tp_samples tp) cc of
               Inl e \<Rightarrow> Inl (Raised e)
             | Inr cc \<Rightarrow>
                (let cc = snd (cc_safety_check cc) in
                 case (case finite_values cc of
                         Some day_cc \<Rightarrow>
                           (case find_peaks cfg day_cc N of
                              (peaks, cc_vals, mad_vals) \<Rightarrow> (peaks, map Fin cc_vals, mad_vals))
                       | None \<Rightarrow> find_peaks_nan cfg (nan_entries cc) N) of
                   (peaks, cc_vals, mad_vals) \<Rightarrow>
                     if length peaks = 0 then Inr []
                     else (case amp_ratios data_abs N temp_amp peaks of
                             Inl e \<Rightarrow> Inl (Raised e)
                           | Inr amps \<Rightarrow>
                               Inr (process_matches peaks cc_vals mad_vals amps
                                      (tr_start d) (tp_file tp))))))"

text \<open>\<^verbatim>\<open>for i, temp_tr in enumerate(templates)\<close>: the lines appended, and what stopped the
  loop, if anything did.\<close>

fun temps_loop ::
  "(nat \<times> template \<Rightarrow> halt + detection list) \<Rightarrow> (nat \<times> template) list
     \<Rightarrow> detection list \<times> halt option" where
  "temps_loop body [] = ([], None)"
| "temps_loop body (it # its) =
     (case body it of
        Inl h \<Rightarrow> ([], Some h)
      | Inr ds \<Rightarrow> (case temps_loop body its of (out, st) \<Rightarrow> (ds @ out, st)))"

text \<open>Lines 312 to 346, for a data trace that is not skipped.\<close>

definition trace_matches ::
  "config \<Rightarrow> dtype \<Rightarrow> dtype \<Rightarrow> nat \<Rightarrow> nat \<Rightarrow> template list \<Rightarrow> data_trace
     \<Rightarrow> detection list \<times> halt option" where
  "trace_matches cfg cc_dtype norm_dtype cc_len N templates d =
     (case data_norm (tr_samples d) N of
        Inl e \<Rightarrow> ([], Some (Raised e))
      | Inr dnorm \<Rightarrow>
          temps_loop (pair_matches cfg cc_dtype norm_dtype cc_len N d dnorm)
                     (enumerate 0 templates))"

text \<open>\<^verbatim>\<open>for j, data_tr in enumerate(data)\<close> with the \<open>continue\<close> of line 310.\<close>

fun traces_loop ::
  "(data_trace \<Rightarrow> detection list \<times> halt option) \<Rightarrow> nat \<Rightarrow> data_trace list
     \<Rightarrow> detection list \<times> halt option" where
  "traces_loop body N [] = ([], None)"
| "traces_loop body N (d # ds) =
     (if length (tr_samples d) < N then traces_loop body N ds
      else case body d of
             (out, Some h) \<Rightarrow> (out, Some h)
           | (out, None) \<Rightarrow> (case traces_loop body N ds of (out', st) \<Rightarrow> (out @ out', st)))"

text \<open>
  \<open>matrix_cc\<close>: the lines appended to the match files, and the exception raised or the
  number of matches returned (the sum of the numbers of lines that the calls of
  \<open>process_matches\<close> report). \<open>next_fast_len\<close> is the library function passed as
  \<open>nfl\<close>; \<open>max\<close> of the empty list of lengths raises \<open>ValueError\<close>.
\<close>

definition matrix_cc ::
  "config \<Rightarrow> dtype \<Rightarrow> dtype \<Rightarrow> (nat \<Rightarrow> nat) \<Rightarrow> nat \<Rightarrow> template list \<Rightarrow> data_trace list
     \<Rightarrow> detection list \<times> (halt + nat)" where
  "matrix_cc cfg cc_dtype norm_dtype nfl N templates data =
     (if data = [] then ([], Inl (Raised ValueError))
      else let data_len = map (\<lambda>tr. length (tr_samples tr)) data;
               cc_len = nfl (Max (set data_len))
           in if N > cc_len then ([], Inr 0)
              else (case traces_loop (trace_matches cfg cc_dtype norm_dtype cc_len N templates)
                           N data of
                      (out, Some h) \<Rightarrow> (out, Inl h)
                    | (out, None) \<Rightarrow> (out, Inr (length out))))"

subsection \<open>Invariants used in the proofs\<close>

text \<open>The marks of \<open>peaks\<close> stay on lags that reach the threshold.\<close>

definition marks_ok :: "real \<Rightarrow> real list \<Rightarrow> bool list \<Rightarrow> bool" where
  "marks_ok thr abs_cc peaks \<longleftrightarrow>
     length peaks = length abs_cc \<and> (\<forall>k < length abs_cc. peaks ! k \<longrightarrow> thr \<le> abs_cc ! k)"

definition marks_ok_nan :: "real \<Rightarrow> real option list \<Rightarrow> bool list \<Rightarrow> bool" where
  "marks_ok_nan thr abs_cc peaks \<longleftrightarrow>
     length peaks = length abs_cc \<and> (\<forall>k < length abs_cc. peaks ! k \<longrightarrow> nan_ge (abs_cc ! k) thr)"

text \<open>The lines that one pair of a data trace and a template row contributes, when
  nothing is raised for it.\<close>

definition pair_lines ::
  "config \<Rightarrow> dtype \<Rightarrow> dtype \<Rightarrow> nat \<Rightarrow> nat \<Rightarrow> data_trace \<Rightarrow> nat \<times> template \<Rightarrow> detection list" where
  "pair_lines cfg cc_dtype norm_dtype cc_len N d it =
     (case data_norm (tr_samples d) N of
        Inl e \<Rightarrow> []
      | Inr dnorm \<Rightarrow>
          (case pair_matches cfg cc_dtype norm_dtype cc_len N d dnorm it of
             Inl h \<Rightarrow> []
           | Inr ds \<Rightarrow> ds))"

subsection \<open>Spectral correlation: the transforms around \<open>matrix_cc\<close>\<close>

text \<open>
  The library's discrete Fourier transform, by its defining sums.
  \<^verbatim>\<open>fft(x, n=L)\<close> cuts or zero-pads \<open>x\<close> to \<open>L\<close> samples and returns
  \<open>X[k] = \<Sum>n. x[n] * exp(-2\<pi>i nk/L)\<close>; \<^verbatim>\<open>ifft(X)\<close> returns
  \<open>x[n] = (1/L) * \<Sum>k. X[k] * exp(2\<pi>i nk/L)\<close>.
\<close>

definition sample_at :: "real list \<Rightarrow> nat \<Rightarrow> nat \<Rightarrow> real" where
  "sample_at x L n = (if n < L \<and> n < length x then x ! n else 0)"

definition np_fft :: "real list \<Rightarrow> nat \<Rightarrow> complex list" where
  "np_fft x L =
     map (\<lambda>k. \<Sum>n<L. of_real (sample_at x L n) * cis (- (2 * pi * real n * real k / real L)))
         [0..<L]"

definition np_ifft :: "complex list \<Rightarrow> complex list" where
  "np_ifft X =
     map (\<lambda>n. (\<Sum>k<length X. X ! k * cis (2 * pi * real n * real k / real (length X)))
                / of_nat (length X))
         [0..<length X]"

text \<open>
  Lines 144 to 146, 129, 301 and 319 to 320 for one pair: the template spectrum
  \<^verbatim>\<open>fft(tr.conj(), n=cc_len)[::-1]\<close> (the samples are real, so \<open>conj\<close> changes nothing),
  the data spectrum \<^verbatim>\<open>fft(tr, n=cc_len)\<close>, their product, and the real part of its
  inverse transform at lag \<open>k\<close>.
\<close>

definition spectral_cc :: "nat \<Rightarrow> real list \<Rightarrow> real list \<Rightarrow> nat \<Rightarrow> real" where
  "spectral_cc cc_len temp_tr data_tr k =
     (let temp_fft = rev (np_fft temp_tr cc_len);
          data_fft = np_fft data_tr cc_len;
          cc_matrix = map (\<lambda>(a, b). a * b) (zip temp_fft data_fft)
      in Re (np_ifft cc_matrix ! k))"

subsection \<open>Orchestrator: the loop of \<open>match_templates\<close>\<close>

text \<open>
  A day file of the data list: its name and, when it can be read, the preprocessed
  samples and the start time. A template file is a \<open>template\<close>; template files are
  taken as readable.
\<close>

record data_file =
  df_name :: string
  df_trace :: "(real list \<times> real) option"

text \<open>\<open>read_bulk_data\<close> on data files: the traces that could be read, \<open>None\<close> when there
  is none.\<close>

definition read_bulk_data :: "data_file list \<Rightarrow> (real list \<times> real) list option" where
  "read_bulk_data files =
     (let data_tr = List.map_filter df_trace files in
      if data_tr = [] then None else Some data_tr)"

text \<open>\<open>read_bulk_data\<close> with \<open>make_equal_length\<close> on template files: the rows, zero-padded
  to the longest one.\<close>

definition read_templates :: "template list \<Rightarrow> template list" where
  "read_templates files =
     (let max_len = Max (set (map (\<lambda>t. length (tp_samples t)) files)) in
      map (\<lambda>t. t\<lparr>tp_samples := tp_samples t @ replicate (max_len - length (tp_samples t)) 0\<rparr>)
          files)"

text \<open>What is fixed during a run: the configuration, the element types of the arrays,
  \<open>next_fast_len\<close>, the correlation of a pair for a transform length, whether the GPU
  is used, and the two file lists.\<close>

record env =
  e_cfg :: config
  e_cc_dtype :: dtype
  e_norm_dtype :: dtype
  e_nfl :: "nat \<Rightarrow> nat"
  e_xcorr :: "nat \<Rightarrow> real list \<Rightarrow> real list \<Rightarrow> nat \<Rightarrow> real"
  e_use_cupy :: bool
  e_all_templates :: "template list"
  e_all_data :: "data_file list"

text \<open>A local variable that \<open>del\<close> can unbind.\<close>

datatype 'a binding = Unbound | Bound 'a

text \<open>The variables of the loop; \<open>st_matches\<close> are the lines appended to the match
  files so far.\<close>

record orch =
  st_di :: nat
  st_ti :: nat
  st_N_MAX :: nat
  st_data :: "data_file list"
  st_templates :: "template list"
  st_cc_len :: nat
  st_data_st :: "(real list \<times> real) list option binding"
  st_temp_st :: "template list binding"
  st_n_detections :: nat
  st_matches :: "detection list"

text \<open>How \<open>match_templates\<close> ends: it returns, \<open>sys.exit\<close> is called, or an exception
  leaves it.\<close>

datatype outcome = Returned | Exited int | Uncaught halt

text \<open>Lines 113 to 129: the data chunk is read again when the slice differs from
  the cached one.\<close>

definition load_data :: "env \<Rightarrow> orch \<Rightarrow> orch" where
  "load_data e st =
     (let sl = take (st_N_MAX st) (drop (st_di st) (e_all_data e)) in
      if st_data st \<noteq> sl then
        (let st = st\<lparr>st_data := sl, st_data_st := Bound (read_bulk_data sl)\<rparr> in
         case read_bulk_data sl of
           None \<Rightarrow> st
         | Some data_st \<Rightarrow>
             (let cc_len' = e_nfl e (Max (set (map (\<lambda>tr. length (fst tr)) data_st))) in
              if cc_len' \<noteq> st_cc_len st
              then st\<lparr>st_cc_len := cc_len', st_templates := []\<rparr>
              else st))
      else st)"

text \<open>Lines 133 to 146: the template chunk is read again when the cache is empty or
  its first file is not the one at the template pointer.\<close>

definition load_templates :: "env \<Rightarrow> orch \<Rightarrow> orch" where
  "load_templates e st =
     (if length (st_templates st) = 0 \<or> hd (st_templates st) \<noteq> e_all_templates e ! st_ti st
      then (let sl = take (st_N_MAX st) (drop (st_ti st) (e_all_templates e)) in
            st\<lparr>st_templates := sl, st_temp_st := Bound (read_templates sl)\<rparr>)
      else st)"

text \<open>The call of \<open>matrix_cc\<close> in line 149 on the loaded chunks.\<close>

definition compute :: "env \<Rightarrow> orch \<Rightarrow> template list \<Rightarrow> (real list \<times> real) list
                         \<Rightarrow> detection list \<times> (halt + nat)" where
  "compute e st temp_st data_st =
     (let N = Max (set (map (\<lambda>t. length (tp_samples t)) temp_st));
          data = map (\<lambda>(samples, start).
                        \<lparr>tr_samples = samples, tr_start = start,
                         tr_ifft = (\<lambda>i k. e_xcorr e (st_cc_len st)
                                            (tp_samples (temp_st ! i)) samples k)\<rparr>)
                     data_st
      in matrix_cc (e_cfg e) (e_cc_dtype e) (e_norm_dtype e) (e_nfl e) N temp_st data)"

text \<open>Lines 159 to 177: the pointers move on; \<open>None\<close> is the \<open>break\<close>.\<close>

definition advance :: "env \<Rightarrow> orch \<Rightarrow> orch option" where
  "advance e st =
     (let ti = st_ti st + st_N_MAX st in
      if ti \<ge> length (e_all_templates e) then
        (let di = st_di st + st_N_MAX st in
         if di \<ge> length (e_all_data e) then None
         else Some (st\<lparr>st_ti := 0, st_di := di, st_data_st := Unbound\<rparr>))
      else Some (st\<lparr>st_ti := ti, st_temp_st := Unbound\<rparr>))"

text \<open>
  Lines 180 to 198, for an out-of-memory error with the GPU in use: the chunk size is
  decremented and balanced over the remaining data, which can raise, and both caches
  are dropped. The pointers are not touched.
\<close>

definition recover :: "env \<Rightarrow> orch \<Rightarrow> outcome + orch" where
  "recover e st =
     (case find_optimal_chunksize (int (st_N_MAX st) - 1)
             (int (length (e_all_data e)) - int (st_di st)) of
        Inl err \<Rightarrow> Inl (Uncaught (Raised err))
      | Inr c \<Rightarrow>
          if c = 0 then Inl (Exited 1)
          else Inr (st\<lparr>st_N_MAX := nat c, st_data := [], st_templates := [],
                       st_data_st := Unbound, st_temp_st := Unbound\<rparr>))"

text \<open>
  The \<open>while True\<close> loop. \<open>oom\<close> tells, for each pass that reaches line 149, whether the
  allocation of the correlation tensor at the start of \<open>matrix_cc\<close> raises the device's
  out-of-memory error; after the list is used up no more errors are raised. The first
  argument bounds the number of passes; \<open>None\<close> means that it was too small.
\<close>

fun orch_loop :: "nat \<Rightarrow> env \<Rightarrow> bool list \<Rightarrow> orch \<Rightarrow> (orch \<times> outcome) option" where
  "orch_loop 0 e oom st = None"
| "orch_loop (Suc fuel) e oom st =
     (let st = load_data e st in
      case st_data_st st of
        Unbound \<Rightarrow> Some (st, Uncaught (Raised NameError))
      | Bound None \<Rightarrow>
          (case advance e st of
             None \<Rightarrow> Some (st, Returned)
           | Some st' \<Rightarrow> orch_loop fuel e oom st')
      | Bound (Some data_st) \<Rightarrow>
          (let st = load_templates e st in
           case st_temp_st st of
             Unbound \<Rightarrow> Some (st, Uncaught (Raised NameError))
           | Bound temp_st \<Rightarrow>
               if oom \<noteq> [] \<and> hd oom then
                 (if e_use_cupy e then
                    (case recover e st of
                       Inl out \<Rightarrow> Some (st, out)
                     | Inr st' \<Rightarrow> orch_loop fuel e (tl oom) st')
                  else Some (st, Uncaught (Raised OutOfMemoryError)))
               else
                 (case compute e st temp_st data_st of
                    (out, Inl h) \<Rightarrow>
                      Some (st\<lparr>st_matches := st_matches st @ out\<rparr>, Uncaught h)
                  | (out, Inr n) \<Rightarrow>
                      (let st = st\<lparr>st_matches := st_matches st @ out,
                                    st_n_detections := st_n_detections st + n\<rparr> in
                       case advance e st of
                         None \<Rightarrow> Some (st, Returned)
                       | Some st' \<Rightarrow> orch_loop fuel e (tl oom) st'))))"

text \<open>
  \<open>match_templates\<close>, with the result \<open>capacity\<close> of \<open>estimate_gpu_capacity\<close>. Line 80
  reads \<open>all_templates[0]\<close>, which raises on an empty list. In
  \<^verbatim>\<open>int(N_MAX**2 / n_templates / 2)\<close> the first division is the true division of two
  integers (here \<open>0 < n_templates < N_MAX\<close>) and the second halves the double, which is
  exact for a double above 1.
\<close>

definition match_templates :: "nat \<Rightarrow> env \<Rightarrow> int \<Rightarrow> bool list \<Rightarrow> (orch \<times> outcome) option" where
  "match_templates fuel e capacity oom =
     (let n_data = length (e_all_data e); n_templates = length (e_all_templates e);
          st0 = \<lparr>st_di = 0, st_ti = 0, st_N_MAX = 0, st_data = [], st_templates = [],
                 st_cc_len = 0, st_data_st = Unbound, st_temp_st = Unbound,
                 st_n_detections = 0, st_matches = []\<rparr>
      in if e_all_templates e = [] then Some (st0, Uncaught (Raised IndexError))
         else if e_all_data e = [] then Some (st0, Returned)
         else (case (if int n_templates < capacity
                     then (let x = float_quot (capacity * capacity) (int n_templates) in
                           if float_overflow x then Inl OverflowError
                           else Inr (float_trunc (fst x, snd x + 1)))
                     else Inr capacity) of
                 Inl err \<Rightarrow> Some (st0, Uncaught (Raised err))
               | Inr N_MAX \<Rightarrow>
                   (case find_optimal_chunksize N_MAX (int n_data) of
                      Inl err \<Rightarrow> Some (st0, Uncaught (Raised err))
                    | Inr c \<Rightarrow> orch_loop fuel e oom (st0\<lparr>st_N_MAX := nat c\<rparr>))))"

subsection \<open>\<open>next_fast_len\<close>\<close>

text \<open>
  Modelled from the library's documentation: \<open>scipy.fftpack.next_fast_len(target)\<close> is the
  smallest number not below \<open>target\<close> whose only prime factors are 2, 3 and 5. The
  search starts at \<open>target\<close> and meets a power of 2 before \<open>2 * target\<close>.
\<close>

function strip_factor :: "nat \<Rightarrow> nat \<Rightarrow> nat" where
  "strip_factor p n = (if 1 < p \<and> 0 < n \<and> p dvd n then strip_factor p (n div p) else n)"
  by pat_completeness auto
termination
  by (relation "measure snd") auto

text \<open>\<open>n\<close> is a product of powers of 2, 3 and 5.\<close>

definition is_regular :: "nat \<Rightarrow> bool" where
  "is_regular n \<longleftrightarrow> 0 < n \<and> strip_factor 5 (strip_factor 3 (strip_factor 2 n)) = 1"

fun search_regular :: "nat \<Rightarrow> nat \<Rightarrow> nat" where
  "search_regular 0 m = m"
| "search_regular (Suc fuel) m = (if is_regular m then m else search_regular fuel (Suc m))"

definition next_fast_len :: "nat \<Rightarrow> nat" where
  "next_fast_len target = search_regular target target"

subsection \<open>A run with one recoverable allocation failure\<close>

text \<open>
  One template of two samples and two day files, the first of 4 samples (a constant
  signal), the second of 6 samples (silence), on the GPU with the default thresholds.
\<close>

definition retry_env :: env where
  "retry_env =
     \<lparr>e_cfg = \<lparr>cc_threshold = 7 / 10, mad_threshold = 8, combine_thresholds = True\<rparr>,
      e_cc_dtype = Float32, e_norm_dtype = Float32, e_nfl = next_fast_len,
      e_xcorr = spectral_cc, e_use_cupy = True,
      e_all_templates = [\<lparr>tp_file = ''t1'', tp_samples = [1, 1]\<rparr>],
      e_all_data = [\<lparr>df_name = ''A'', df_trace = Some ([1, 1, 1, 1], 0)\<rparr>,
                    \<lparr>df_name = ''B'', df_trace = Some ([0, 0, 0, 0, 0, 0], 86400)\<rparr>]\<rparr>"

subsection \<open>Properties of the chunk planner\<close>

text \<open>Below \<open>2^53\<close> the rounding of the true division does not reach the next integer:
  \<^verbatim>\<open>int(a / b)\<close> is the integer quotient.\<close>

lemma rounded_quotient_floor:
  fixes a b t :: int
  assumes b: "0 < b" and a: "0 \<le> a" and a53: "a < 2 ^ 53" and t: "1 \<le> t"
    and norm: "b * 2 ^ 52 \<le> a * t"
  shows "(if 2 * ((a * t) mod b) < b \<or> (2 * ((a * t) mod b) = b \<and> even ((a * t) div b))
          then (a * t) div b else (a * t) div b + 1) div t = a div b"
proof -
  define Q where "Q = a div b"
  define R where "R = a mod b"
  define u where "u = (R * t) div b"
  define r where "r = (R * t) mod b"
  have aQR: "a = Q * b + R" by (simp add: Q_def R_def)
  have R0: "0 \<le> R" and Rb: "R < b" using b by (simp_all add: R_def)
  have at: "a * t = (Q * t) * b + R * t" by (simp add: aQR algebra_simps)
  have q_eq: "(a * t) div b = Q * t + u"
    unfolding at u_def using b by simp
  have r_eq: "(a * t) mod b = r"
    unfolding at r_def by simp
  have Rt: "R * t = u * b + r" by (simp add: u_def r_def)
  have r0: "0 \<le> r" and rb: "r < b" using b by (simp_all add: r_def)
  have Rt0: "0 \<le> R * t" using R0 t by simp
  have u0: "0 \<le> u" unfolding u_def using Rt0 b by (simp add: pos_imp_zdiv_nonneg_iff)
  have "R \<le> b - 1" using Rb by simp
  then have Rle: "R * t \<le> (b - 1) * t" using t by (intro mult_right_mono) simp_all
  have "u * b \<le> R * t" using Rt r0 by simp
  also have "\<dots> < t * b"
  proof -
    have "(b - 1) * t = t * b - t" by (simp add: algebra_simps)
    with Rle t show ?thesis by linarith
  qed
  finally have ut: "u < t" using b by (simp add: mult_less_cancel_right)
  have small: "(Q * t + w) div t = Q" if "0 \<le> w" "w < t" for w
    using that t by (simp add: div_pos_pos_trivial)
  show ?thesis
  proof (cases "2 * r < b \<or> (2 * r = b \<and> even (Q * t + u))")
    case True
    show ?thesis
      unfolding q_eq r_eq Q_def[symmetric] if_P[OF True] using small[OF u0 ut] .
  next
    case False
    then have rr: "b \<le> 2 * r" by auto
    have "u + 1 < t"
    proof (rule ccontr)
      assume "\<not> u + 1 < t"
      with ut have ue: "u = t - 1" by simp
      have "r = R * t - (t - 1) * b" using Rt ue by simp
      also have "\<dots> \<le> (b - 1) * t - (t - 1) * b" using Rle by simp
      also have "\<dots> = b - t" by (simp add: algebra_simps)
      finally have "r \<le> b - t" .
      with rr have bt: "2 * t \<le> b" by simp
      have "a * t < 2 ^ 53 * t" using a53 t by (simp add: mult_less_cancel_right)
      also have "\<dots> = (2 * t) * 2 ^ 52" by simp
      also have "\<dots> \<le> b * 2 ^ 52" using bt by (intro mult_right_mono) simp_all
      finally show False using norm by simp
    qed
    moreover have "0 \<le> u + 1" using u0 by simp
    ultimately have "(Q * t + (u + 1)) div t = Q" by (rule small[rotated])
    then have "(Q * t + u + 1) div t = Q" by (simp only: add.assoc)
    then show ?thesis
      unfolding q_eq r_eq Q_def[symmetric] if_not_P[OF False] .
  qed
qed

lemma bitlen_range:
  assumes "0 < a" "a < 2 ^ 53"
  shows "1 \<le> bitlen a" "bitlen a \<le> 53"
  using assms by (simp_all add: bitlen_ge_iff_power bitlen_le_iff_power)

lemma binade_range:
  assumes "0 < a" "a < 2 ^ 53" "0 < b" "b < 2 ^ 53"
  shows "- 53 \<le> binade a b" "binade a b \<le> 52"
  using bitlen_range[OF assms(1,2)] bitlen_range[OF assms(3,4)]
  by (auto simp: binade_def Let_def)

lemma binade_normalizes:
  assumes a: "0 < a" "a < 2 ^ 53" and b: "0 < b" "b < 2 ^ 53"
  shows "b * 2 ^ 52 \<le> a * 2 ^ nat (52 - binade a b)"
proof -
  define la where "la = bitlen a"
  define lb where "lb = bitlen b"
  define d where "d = la - lb"
  have la: "1 \<le> la" "la \<le> 53" using bitlen_range[OF a] by (simp_all add: la_def)
  have lb: "1 \<le> lb" "lb \<le> 53" using bitlen_range[OF b] by (simp_all add: lb_def)
  have ba: "2 ^ nat (la - 1) \<le> a" using bitlen_bounds[OF a(1)] by (simp add: la_def)
  have bb: "b < 2 ^ nat lb" using bitlen_bounds[OF b(1)] by (simp add: lb_def)
  show ?thesis
  proof (cases "b * 2 ^ nat d \<le> a * 2 ^ nat (- d)")
    case True
    then have e: "binade a b = d" by (simp add: binade_def la_def lb_def d_def)
    show ?thesis
    proof (cases "0 \<le> d")
      case d0: True
      then have le: "b * 2 ^ nat d \<le> a" using True by simp
      have "nat d + nat (52 - d) = 52" using d0 la lb by (simp add: d_def)
      then have "(2::int) ^ 52 = 2 ^ nat d * 2 ^ nat (52 - d)"
        by (simp add: power_add[symmetric])
      then have "b * 2 ^ 52 = (b * 2 ^ nat d) * 2 ^ nat (52 - d)" by simp
      also have "\<dots> \<le> a * 2 ^ nat (52 - d)" using le by (intro mult_right_mono) simp_all
      finally show ?thesis by (simp add: e)
    next
      case d0: False
      then have le: "b \<le> a * 2 ^ nat (- d)" using True by simp
      have "nat (52 - d) = 52 + nat (- d)" using d0 by simp
      then have p: "(2::int) ^ nat (52 - d) = 2 ^ 52 * 2 ^ nat (- d)"
        by (simp add: power_add)
      have "b * 2 ^ 52 \<le> (a * 2 ^ nat (- d)) * 2 ^ 52" using le by (intro mult_right_mono) simp_all
      then show ?thesis by (simp add: e p mult_ac)
    qed
  next
    case False
    then have e: "binade a b = d - 1" by (simp add: binade_def la_def lb_def d_def)
    have "nat (la - 1) + nat (53 - d) = nat lb + 52" using la lb by (simp add: d_def)
    then have "(2::int) ^ (nat (la - 1) + nat (53 - d)) = 2 ^ (nat lb + 52)" by simp
    then have p: "(2::int) ^ nat (la - 1) * 2 ^ nat (53 - d) = 2 ^ nat lb * 2 ^ 52"
      by (simp only: power_add)
    have "b * 2 ^ 52 \<le> 2 ^ nat lb * 2 ^ 52" using bb by (intro mult_right_mono) simp_all
    also have "\<dots> = 2 ^ nat (la - 1) * 2 ^ nat (53 - d)" using p by simp
    also have "\<dots> \<le> a * 2 ^ nat (53 - d)" using ba by (intro mult_right_mono) simp_all
    finally show ?thesis by (simp add: e algebra_simps)
  qed
qed

lemma int_truediv_exact:
  assumes a: "0 \<le> a" "a < 2 ^ 53" and b: "0 < b" "b < 2 ^ 53"
  shows "int_truediv a b = Inr (a div b)"
proof (cases "a = 0")
  case True
  then show ?thesis using b by (simp add: int_truediv_def)
next
  case False
  with a have a0: "0 < a" by simp
  define s where "s = 52 - binade a b"
  define t :: int where "t = 2 ^ nat s"
  define m where "m = (if 2 * ((a * t) mod b) < b \<or> (2 * ((a * t) mod b) = b \<and> even ((a * t) div b))
          then (a * t) div b else (a * t) div b + 1)"
  have rng: "- 53 \<le> binade a b" "binade a b \<le> 52"
    using binade_range[OF a0 a(2) b] by simp_all
  then have mx: "max (binade a b) (- 1022) = binade a b" by simp
  have s0: "0 \<le> s" using rng by (simp add: s_def)
  then have ns: "nat (- s) = 0" by simp
  have t1: "1 \<le> t" by (simp add: t_def)
  have fq: "float_quot a b = (m, s)"
    unfolding float_quot_def Let_def mx s_def[symmetric] ns m_def t_def by simp
  have norm: "b * 2 ^ 52 \<le> a * t"
    using binade_normalizes[OF a0 a(2) b] by (simp add: t_def s_def)
  have md: "m div t = a div b"
    unfolding m_def using rounded_quotient_floor[OF b(1) a(1) a(2) t1 norm] .
  have "a div b \<le> a div 1" using a(1) b(1) by (intro zdiv_mono2) simp_all
  then have "a div b \<le> a" by simp
  then have "a div b < 2 ^ 53" using a(2) by simp
  have "m < (m div t + 1) * t"
  proof -
    have "(m div t + 1) * t = (m div t) * t + t" by (simp add: algebra_simps)
    moreover have "m mod t < t" using t1 by simp
    ultimately show ?thesis using div_mult_mod_eq[of m t] by linarith
  qed
  also have "\<dots> \<le> 2 ^ 53 * t" using \<open>a div b < 2 ^ 53\<close> t1 md by (intro mult_right_mono) simp_all
  also have "\<dots> < 2 ^ 1024 * t" using t1 by (simp add: mult_less_cancel_right)
  finally have nov: "\<not> 2 ^ 1024 * t \<le> m" by simp
  show ?thesis
    using a0 b(1) False nov md
    by (simp add: int_truediv_def fq float_overflow_def float_trunc_def ns t_def[symmetric])
qed

lemma quot_round_up_pos:
  assumes "0 \<le> a" "a < 2 ^ 53" "0 < b" "b < 2 ^ 53"
  shows "quot_round_up a b = Inr (a div b + (if a mod b > 0 then 1 else 0))"
  using assms by (simp add: quot_round_up_def int_truediv_exact py_mod_pos_def)

lemma round_up_eq_ceiling:
  assumes "0 < b"
  shows "a div b + (if a mod b > 0 then 1 else 0) = \<lceil>real_of_int a / real_of_int b\<rceil>"
proof -
  have c: "\<lceil>real_of_int a / real_of_int b\<rceil> = - (- a div b)"
    by (rule ceiling_divide_eq_div)
  show ?thesis
  proof (cases "a mod b = 0")
    case True
    then have "b dvd a" by (simp add: dvd_eq_mod_eq_0)
    then have "- a div b = - (a div b)" by (simp add: dvd_neg_div)
    with True c show ?thesis by simp
  next
    case False
    have "0 \<le> a mod b" using assms by simp
    with False have pos: "0 < a mod b" by linarith
    from False assms have "- a div b = - (a div b) - 1"
      by (simp add: zdiv_zminus1_eq_if)
    with pos c show ?thesis by simp
  qed
qed

lemma round_up_bounds:
  fixes a b :: int
  assumes "0 < b"
  defines "q \<equiv> a div b + (if a mod b > 0 then 1 else 0)"
  shows "a \<le> q * b" and "(q - 1) * b < a"
proof -
  have eq: "a = (a div b) * b + a mod b" by simp
  have m: "0 \<le> a mod b" "a mod b < b" using assms by simp_all
  show "a \<le> q * b"
  proof (cases "a mod b > 0")
    case True
    then have "q * b = (a div b) * b + b" by (simp add: q_def algebra_simps)
    with eq m show ?thesis by linarith
  next
    case False
    with m have "a mod b = 0" by simp
    with eq have "a = (a div b) * b" by simp
    with False show ?thesis by (simp add: q_def)
  qed
  show "(q - 1) * b < a"
  proof (cases "a mod b > 0")
    case True
    then have "(q - 1) * b = (a div b) * b" by (simp add: q_def)
    with eq True show ?thesis by linarith
  next
    case False
    with m have z: "a mod b = 0" by simp
    from False have "(q - 1) * b = (a div b) * b - b" by (simp add: q_def algebra_simps)
    with eq z assms show ?thesis by linarith
  qed
qed

lemma round_up_unique:
  assumes "0 < (b::int)" "a \<le> q * b" "(q - 1) * b < a"
  shows "a div b + (if a mod b > 0 then 1 else 0) = q"
proof -
  define q' where "q' = a div b + (if a mod b > 0 then 1 else 0)"
  have 1: "a \<le> q' * b" and 2: "(q' - 1) * b < a"
    using round_up_bounds[OF assms(1), of a] by (simp_all add: q'_def)
  have "(q' - 1) * b < q * b" using 2 assms(2) by linarith
  then have "q' - 1 < q" using assms(1) by (simp add: mult_less_cancel_right)
  moreover have "(q - 1) * b < q' * b" using 1 assms(3) by linarith
  then have "q - 1 < q'" using assms(1) by (simp add: mult_less_cancel_right)
  ultimately have "q' = q" by linarith
  then show ?thesis by (simp add: q'_def)
qed

lemma chunk_core:
  fixes capacity total :: int
  assumes cap: "1 \<le> capacity" and tot: "1 \<le> total"
  defines "n \<equiv> total div capacity + (if total mod capacity > 0 then 1 else 0)"
  defines "c \<equiv> total div n + (if total mod n > 0 then 1 else 0)"
  shows "1 \<le> n" and "1 \<le> c" and "c \<le> capacity"
    and "total div c + (if total mod c > 0 then 1 else 0) = n" and "n \<le> total"
proof -
  have cpos: "0 < capacity" using cap by simp
  have n1: "total \<le> n * capacity" and n2: "(n - 1) * capacity < total"
    using round_up_bounds[OF cpos, of total] by (simp_all add: n_def)
  show npos: "1 \<le> n"
  proof (rule ccontr)
    assume "\<not> 1 \<le> n"
    then have "n \<le> 0" by simp
    then have "n * capacity \<le> 0" using cpos by (simp add: mult_le_0_iff)
    with n1 tot show False by linarith
  qed
  then have n0: "0 < n" by simp
  have c1: "total \<le> c * n" and c2: "(c - 1) * n < total"
    using round_up_bounds[OF n0, of total] by (simp_all add: c_def)
  show cge: "1 \<le> c"
  proof (rule ccontr)
    assume "\<not> 1 \<le> c"
    then have "c \<le> 0" by simp
    then have "c * n \<le> 0" using n0 by (simp add: mult_le_0_iff)
    with c1 tot show False by linarith
  qed
  have "(c - 1) * n < capacity * n" using c2 n1 by (simp add: mult.commute)
  then have "c - 1 < capacity" using n0 by (simp add: mult_less_cancel_right)
  then show cle: "c \<le> capacity" by simp
  have c0: "0 < c" using cge by simp
  have "(n - 1) * c \<le> (n - 1) * capacity"
    using cle npos by (simp add: mult_left_mono)
  with n2 have "(n - 1) * c < total" by linarith
  moreover have "total \<le> n * c" using c1 by (simp add: mult.commute)
  ultimately show "total div c + (if total mod c > 0 then 1 else 0) = n"
    using round_up_unique[OF c0] by blast
  have "(n - 1) * 1 \<le> (n - 1) * capacity" using cap npos by (intro mult_left_mono) simp_all
  with n2 show "n \<le> total" by simp
qed

text \<open>
  Claim C2, as amended. For a capacity and a number of items that are at least 1 and
  below \<open>2^53\<close>, \<open>find_optimal_chunksize capacity total\<close> returns a chunk size \<open>c\<close> with
  \<open>1 \<le> c \<le> capacity\<close> that needs as many iterations as the capacity itself:
  \<open>ceil(total / c) = ceil(total / capacity)\<close>.
\<close>

theorem balance_contract:
  fixes capacity total :: int
  assumes "1 \<le> capacity" and "capacity < 2 ^ 53" and "1 \<le> total" and "total < 2 ^ 53"
  shows "\<exists>c. find_optimal_chunksize capacity total = Inr c \<and> 1 \<le> c \<and> c \<le> capacity \<and>
           \<lceil>real_of_int total / real_of_int c\<rceil> = \<lceil>real_of_int total / real_of_int capacity\<rceil>"
proof -
  define n where "n = total div capacity + (if total mod capacity > 0 then 1 else 0)"
  define c where "c = total div n + (if total mod n > 0 then 1 else 0)"
  have core: "1 \<le> n" "1 \<le> c" "c \<le> capacity"
    "total div c + (if total mod c > 0 then 1 else 0) = n" "n \<le> total"
    using chunk_core[OF assms(1,3)] by (simp_all add: n_def c_def)
  have "quot_round_up total capacity = Inr n"
    using assms quot_round_up_pos[of total capacity] by (simp add: n_def)
  moreover have "quot_round_up total n = Inr c"
    using assms core(1,5) quot_round_up_pos[of total n] by (simp add: c_def)
  ultimately have "find_optimal_chunksize capacity total = Inr c"
    by (simp add: find_optimal_chunksize_def)
  moreover have "\<lceil>real_of_int total / real_of_int c\<rceil> = n"
    using round_up_eq_ceiling[of c total] core by simp
  moreover have "\<lceil>real_of_int total / real_of_int capacity\<rceil> = n"
    using round_up_eq_ceiling[of capacity total] assms by (simp add: n_def)
  ultimately show ?thesis using core by simp
qed

theorem balance_contract_witness:
  "(1::int) \<le> 5 \<and> (5::int) < 2 ^ 53 \<and> (1::int) \<le> 12 \<and> (12::int) < 2 ^ 53 \<and>
   (\<exists>c. find_optimal_chunksize 5 12 = Inr c \<and> 1 \<le> c \<and> c \<le> 5 \<and>
        \<lceil>real_of_int 12 / real_of_int c\<rceil> = \<lceil>real_of_int 12 / real_of_int 5\<rceil>)"
  using balance_contract[of 5 12] by simp

text \<open>
  Claim C2 as stated ("for all inputs") fails. With a capacity of 0, the value the
  recovery path passes after a failure at chunk size 1, and with no items, the first,
  respectively the second, division raises \<open>ZeroDivisionError\<close> and no chunk size is
  returned. With a capacity of 1 and \<open>2^53 + 1\<close> items the first quotient is rounded to
  \<open>2^53\<close>, the second to 1, and the chunk size 2 exceeds the capacity.
\<close>

theorem balance_rejects_zero:
  "find_optimal_chunksize 0 5 = Inl ZeroDivisionError \<and>
   find_optimal_chunksize 5 0 = Inl ZeroDivisionError \<and>
   find_optimal_chunksize 1 (2 ^ 53 + 1) = Inr 2"
proof -
  have "find_optimal_chunksize 0 5 = Inl ZeroDivisionError"
    by (simp add: find_optimal_chunksize_def quot_round_up_def int_truediv_def)
  moreover have "find_optimal_chunksize 5 0 = Inl ZeroDivisionError"
    by (simp add: find_optimal_chunksize_def quot_round_up_def int_truediv_def py_mod_pos_def)
  moreover have "find_optimal_chunksize 1 (2 ^ 53 + 1) = Inr 2"
    by code_simp
  ultimately show ?thesis by simp
qed

text \<open>
  Claim C10, as amended. When the capacity covers all items and is below \<open>2^53\<close>,
  \<open>1 \<le> total \<le> capacity < 2^53\<close>, the planned chunk size is exactly the item count.
\<close>

theorem chunk_collapses_to_total:
  fixes capacity total :: int
  assumes "1 \<le> total" and "total \<le> capacity" and "capacity < 2 ^ 53"
  shows "find_optimal_chunksize capacity total = Inr total"
proof -
  have cap: "0 < capacity" using assms by simp
  have tot: "total < 2 ^ 53" using assms by simp
  have "total div capacity + (if total mod capacity > 0 then 1 else 0) = 1"
    using assms cap by (intro round_up_unique) simp_all
  then have "quot_round_up total capacity = Inr 1"
    using assms cap tot quot_round_up_pos[of total capacity] by simp
  moreover have "quot_round_up total 1 = Inr total"
    using assms tot quot_round_up_pos[of total 1] by simp
  ultimately show ?thesis by (simp add: find_optimal_chunksize_def)
qed

theorem chunk_collapses_to_total_witness:
  "(1::int) \<le> 7 \<and> (7::int) \<le> 30 \<and> (30::int) < 2 ^ 53 \<and> find_optimal_chunksize 30 7 = Inr 7"
  using chunk_collapses_to_total[of 7 30] by simp

text \<open>
  Claim C10 as stated ("for all integers") fails from \<open>2^53 + 1\<close> on: with as many items
  as the capacity, \<open>2^53 + 1\<close>, one iteration is planned, but \<^verbatim>\<open>int(N / 1)\<close> goes through the
  double nearest to \<open>N\<close>, which is \<open>2^53\<close>, and one item less than the item count is
  returned.
\<close>

theorem chunk_rounds_large_total:
  "find_optimal_chunksize (2 ^ 53 + 1) (2 ^ 53 + 1) = Inr (2 ^ 53)"
  by code_simp

subsection \<open>Properties of the normalizer\<close>

lemma data_norm_value:
  assumes "1 \<le> N" and "N \<le> length data_tr"
  shows "data_norm data_tr N =
           Inr (map (\<lambda>k. \<Sum>j\<leftarrow>[0..<N]. (data_tr ! (k + j)) ^ 2) [0..<length data_tr - N + 1])"
proof -
  let ?M = "length data_tr"
  let ?sq = "map (\<lambda>x. x ^ 2) ((0::real) # data_tr)"
  have pad: "pad_zeros data_tr ?M 1 (Some 0) = Inr (0 # data_tr)"
    by (simp add: pad_zeros_def)
  have len: "\<not> length (replicate N (1::real)) > length ?sq" using assms by simp
  have conv: "convolve_valid ?sq (replicate N 1) =
      Inr (map (\<lambda>i. \<Sum>j\<leftarrow>[0..<N]. ?sq ! (i + j) * replicate N 1 ! (N - 1 - j))
               [0..<?M + 1 - N + 1])"
    using assms unfolding convolve_valid_def Let_def by auto
  have inner: "(\<Sum>j\<leftarrow>[0..<N]. ?sq ! (i + j) * replicate N 1 ! (N - 1 - j))
        = (\<Sum>j\<leftarrow>[0..<N]. ?sq ! (i + j))" for i
    by (rule arg_cong[where f = sum_list], rule map_cong) auto
  have "drop 1 (map (\<lambda>i. \<Sum>j\<leftarrow>[0..<N]. ?sq ! (i + j)) [0..<?M + 1 - N + 1])
      = map (\<lambda>k. \<Sum>j\<leftarrow>[0..<N]. (data_tr ! (k + j)) ^ 2) [0..<?M - N + 1]"
  proof (rule nth_equalityI)
    show "length (drop 1 (map (\<lambda>i. \<Sum>j\<leftarrow>[0..<N]. ?sq ! (i + j)) [0..<?M + 1 - N + 1]))
        = length (map (\<lambda>k. \<Sum>j\<leftarrow>[0..<N]. (data_tr ! (k + j)) ^ 2) [0..<?M - N + 1])"
      using assms by simp
  next
    fix k assume "k < length (drop 1 (map (\<lambda>i. \<Sum>j\<leftarrow>[0..<N]. ?sq ! (i + j)) [0..<?M + 1 - N + 1]))"
    then have k: "k < ?M - N + 1" using assms by simp
    have "(\<Sum>j\<leftarrow>[0..<N]. ?sq ! (Suc k + j)) = (\<Sum>j\<leftarrow>[0..<N]. (data_tr ! (k + j)) ^ 2)"
    proof (rule arg_cong[where f = sum_list], rule map_cong)
      fix j assume "j \<in> set [0..<N]"
      then have "k + j < ?M" using k assms by auto
      then show "?sq ! (Suc k + j) = (data_tr ! (k + j)) ^ 2" by simp
    qed simp
    moreover have "Suc k < ?M + 1 - N + 1" using k assms by simp
    ultimately show "drop 1 (map (\<lambda>i. \<Sum>j\<leftarrow>[0..<N]. ?sq ! (i + j)) [0..<?M + 1 - N + 1]) ! k
        = map (\<lambda>k. \<Sum>j\<leftarrow>[0..<N]. (data_tr ! (k + j)) ^ 2) [0..<?M - N + 1] ! k"
      using k by (simp del: upt_Suc)
  qed
  with conv inner have "window_sum ?sq N
       = Inr (map (\<lambda>k. \<Sum>j\<leftarrow>[0..<N]. (data_tr ! (k + j)) ^ 2) [0..<?M - N + 1])"
    by (simp add: window_sum_def)
  with pad show ?thesis by (simp add: data_norm_def)
qed

lemma window_as_interval:
  "(\<Sum>j\<leftarrow>[0..<N]. f (k + j)) = (\<Sum>i = k..<k + N. f i)"
proof -
  have "(\<Sum>j\<leftarrow>[0..<N]. f (k + j)) = (\<Sum>j = 0..<N. f (k + j))"
    by (simp add: interv_sum_list_conv_sum_set_nat)
  also have "\<dots> = (\<Sum>i = k..<k + N. f i)"
    using sum.shift_bounds_nat_ivl[of f 0 k N] by (simp add: add.commute)
  finally show ?thesis .
qed

lemma local_energy_aligned_aux:
  assumes "1 \<le> N" and "N \<le> length data_tr"
  shows "\<exists>es. data_norm data_tr N = Inr es \<and> length es = length data_tr - N + 1 \<and>
           (\<forall>k \<le> length data_tr - N. es ! k = (\<Sum>i = k..<k + N. (data_tr ! i) ^ 2))"
proof -
  let ?es = "map (\<lambda>k. \<Sum>j\<leftarrow>[0..<N]. (data_tr ! (k + j)) ^ 2) [0..<length data_tr - N + 1]"
  have "?es ! k = (\<Sum>i = k..<k + N. (data_tr ! i) ^ 2)" if "k \<le> length data_tr - N" for k
    using that window_as_interval[where f = "\<lambda>i. (data_tr ! i) ^ 2" and k = k and N = N]
    by (simp del: upt_Suc add: less_Suc_eq_le)
  moreover have "length ?es = length data_tr - N + 1" by simp
  ultimately show ?thesis using data_norm_value[OF assms] by blast
qed

text \<open>
  Claim C6. For a data trace of length \<open>M\<close> and a template length \<open>N\<close> with
  \<open>1 \<le> N \<le> M\<close>, the local energy (\<open>pad_zeros\<close> of the trace, then \<open>window_sum\<close> of
  the squared samples) is returned, has exactly \<open>M - N + 1\<close> entries, and entry \<open>k\<close> is
  the sum of the squares of the samples \<open>k\<close> to \<open>k + N - 1\<close>.
\<close>

theorem local_energy_aligned:
  assumes "1 \<le> N" and "N \<le> length data_tr"
  shows "\<exists>es. data_norm data_tr N = Inr es \<and> length es = length data_tr - N + 1 \<and>
           (\<forall>k \<le> length data_tr - N. es ! k = (\<Sum>i = k..<k + N. (data_tr ! i) ^ 2))"
  using assms by (rule local_energy_aligned_aux)

theorem local_energy_aligned_witness:
  "(1::nat) \<le> 2 \<and> 2 \<le> length [3, 4, 5 :: real] \<and>
   (\<exists>es. data_norm [3, 4, 5] 2 = Inr es \<and> length es = length [3, 4, 5 :: real] - 2 + 1 \<and>
      (\<forall>k \<le> length [3, 4, 5 :: real] - 2. es ! k = (\<Sum>i = k..<k + 2. ([3, 4, 5] ! i) ^ 2)))"
  using local_energy_aligned[of 2 "[3, 4, 5]"] by simp

text \<open>The template array has at least one column. An empty window would be refused by
  \<open>convolve\<close>.\<close>

lemma local_energy_empty_window:
  "data_norm [1, 2] 0 = Inl ValueError"
  by (simp add: data_norm_def pad_zeros_def window_sum_def convolve_valid_def)

subsection \<open>Properties of the peak detector\<close>

lemma set_where_ge: "set (where_ge abs_cc thr) = {k. k < length abs_cc \<and> thr \<le> abs_cc ! k}"
  by (auto simp: where_ge_def)

lemma set_where_true: "set (where_true peaks) = {k. k < length peaks \<and> peaks ! k}"
  by (auto simp: where_true_def)

lemma where_true_replicate: "where_true (replicate n False) = []"
  by (simp add: where_true_def filter_empty_conv)

lemma marks_ok_step:
  assumes "marks_ok thr abs_cc peaks" and "x + 1 < length abs_cc"
    and "\<not> abs_cc ! (x + 1) < thr"
  shows "marks_ok thr abs_cc (peaks[x := False, x + 1 := True])"
  using assms by (auto simp: marks_ok_def nth_list_update)

lemma run_while_marks:
  "marks_ok thr abs_cc peaks \<Longrightarrow> marks_ok thr abs_cc (fst (run_while thr abs_cc p x peaks it))"
proof (induction thr abs_cc p x peaks it rule: run_while.induct)
  case (1 thr abs_cc p x peaks)
  then show ?case using marks_ok_step[of thr abs_cc peaks x] by auto
next
  case (2 thr abs_cc p x peaks y it)
  then show ?case using marks_ok_step[of thr abs_cc peaks x] by auto
qed

lemma run_while_rest:
  "set (snd (run_while thr abs_cc p x peaks it)) \<subseteq> set it"
  by (induction thr abs_cc p x peaks it rule: run_while.induct) auto

lemma for_tops_marks:
  assumes "marks_ok thr abs_cc peaks"
    and "\<forall>x \<in> set it. x < length abs_cc"
  shows "marks_ok thr abs_cc (for_tops thr abs_cc peaks it)"
  using assms
proof (induction thr abs_cc peaks it rule: for_tops.induct)
  case (1 thr abs_cc peaks)
  then show ?case by simp
next
  case (2 thr abs_cc peaks x it)
  show ?case
  proof (cases "abs_cc ! x < thr")
    case True
    with 2 show ?thesis by simp
  next
    case False
    obtain peaks' it' where r: "run_while thr abs_cc (abs_cc ! x) x (peaks[x := True]) it = (peaks', it')"
      by (cases "run_while thr abs_cc (abs_cc ! x) x (peaks[x := True]) it")
    have "marks_ok thr abs_cc (peaks[x := True])"
      using 2(2,3) False by (auto simp: marks_ok_def nth_list_update)
    from run_while_marks[OF this, of "abs_cc ! x" x it] r
    have m: "marks_ok thr abs_cc peaks'" by simp
    have "set it' \<subseteq> set it"
      using run_while_rest[of thr abs_cc "abs_cc ! x" x "peaks[x := True]" it] r by simp
    with 2(3) have b: "\<forall>x \<in> set it'. x < length abs_cc" by auto
    from 2(1)[OF False r[symmetric] m b] False r show ?thesis by simp
  qed
qed

lemma length_clear_slice: "length (clear_slice peaks a b) = length peaks"
  by (simp add: clear_slice_def)

lemma nth_clear_slice:
  "k < length peaks \<Longrightarrow> clear_slice peaks a b ! k \<Longrightarrow> peaks ! k"
  by (simp add: clear_slice_def split: if_splits)

lemma exclude_close_marks:
  "marks_ok thr abs_cc peaks \<Longrightarrow> marks_ok thr abs_cc (exclude_close distance peaks xs)"
proof (induction distance peaks xs rule: exclude_close.induct)
  case (1 distance peaks)
  then show ?case by simp
next
  case (2 distance peaks x xs)
  show ?case
  proof (cases "peaks ! x")
    case False
    with 2 show ?thesis by simp
  next
    case True
    let ?p = "(clear_slice peaks (int x - int distance) (int x + int distance))[x := True]"
    have "thr \<le> abs_cc ! k" if "k < length abs_cc" and "?p ! k" for k
    proof (cases "k = x")
      case True
      with \<open>peaks ! x\<close> 2(3) that show ?thesis by (simp add: marks_ok_def)
    next
      case False
      with that have "clear_slice peaks (int x - int distance) (int x + int distance) ! k"
        by simp
      with that 2(3) have "peaks ! k"
        using nth_clear_slice[of k peaks] by (simp add: marks_ok_def)
      with that 2(3) show ?thesis by (simp add: marks_ok_def)
    qed
    with 2(3) have "marks_ok thr abs_cc ?p"
      by (simp add: marks_ok_def length_clear_slice)
    with 2(2) True show ?thesis by simp
  qed
qed

lemma find_peaks_tops:
  assumes "k \<in> set (fst (find_peaks cfg day_cc distance))"
  shows "k < length day_cc \<and>
         local_threshold cfg (water_level (daily_mad day_cc)) \<le> \<bar>day_cc ! k\<bar>"
proof -
  let ?thr = "local_threshold cfg (water_level (daily_mad day_cc))"
  let ?a = "map abs day_cc"
  let ?p1 = "for_tops ?thr ?a (replicate (length day_cc) False) (where_ge ?a ?thr)"
  let ?p2 = "exclude_close distance ?p1 (sorted_by_cc ?a (where_true ?p1))"
  have "marks_ok ?thr ?a (replicate (length day_cc) False)"
    by (simp add: marks_ok_def)
  then have "marks_ok ?thr ?a ?p1"
    by (rule for_tops_marks) (simp add: set_where_ge)
  then have m: "marks_ok ?thr ?a ?p2" by (rule exclude_close_marks)
  from assms have "k \<in> set (where_true ?p2)"
    by (simp add: find_peaks_def Let_def)
  with m show ?thesis by (auto simp: set_where_true marks_ok_def)
qed

lemma find_peaks_values:
  "fst (snd (find_peaks cfg day_cc distance)) = map (\<lambda>k. day_cc ! k) (fst (find_peaks cfg day_cc distance))"
  by (simp add: find_peaks_def Let_def)

lemma find_peaks_lengths:
  "length (fst (snd (find_peaks cfg day_cc distance))) = length (fst (find_peaks cfg day_cc distance))"
  "length (snd (snd (find_peaks cfg day_cc distance))) = length (fst (find_peaks cfg day_cc distance))"
  by (simp_all add: find_peaks_def Let_def split: option.split)

lemma find_peaks_no_candidate:
  assumes "where_ge (map abs day_cc) (local_threshold cfg (water_level (daily_mad day_cc))) = []"
  shows "find_peaks cfg day_cc distance = ([], [], [])"
  using assms
  by (cases "water_level (daily_mad day_cc)")
     (simp_all add: find_peaks_def Let_def where_true_replicate sorted_by_cc_def)

lemma np_median_Some: "xs \<noteq> [] \<Longrightarrow> \<exists>m. np_median xs = Some m"
  by (simp add: np_median_def Let_def)

lemma daily_mad_Some: "day_cc \<noteq> [] \<Longrightarrow> \<exists>m. daily_mad day_cc = Some m"
  using np_median_Some[of day_cc] np_median_Some[of "map f day_cc" for f]
  by (auto simp: daily_mad_def)

lemma water_level_nonzero: "water_level mad = Some m \<Longrightarrow> m \<noteq> 0"
  by (auto simp: water_level_def split: option.splits if_splits)


lemma daily_mad_zeros:
  assumes "0 < n"
  shows "daily_mad (replicate n 0) = Some 0"
proof -
  have s: "sort (replicate n (0::real)) = replicate n 0"
    by (simp add: sorted_sort_id sorted_replicate)
  have m: "np_median (replicate n (0::real)) = Some 0"
    using assms by (auto simp: np_median_def Let_def s)
  then show ?thesis by (simp add: daily_mad_def)
qed

text \<open>
  Claim C3 at a failing input. Template length 3, candidates at the lags 0 and 2 with
  absolute correlations 0.9 and 0.8: both slices \<^verbatim>\<open>peaks[x-3:x+3]\<close> start at a negative
  index, which counts from the end of the array, so they are empty and nothing is
  suppressed. Both lags are reported although they are 2 samples apart.
\<close>

theorem nms_wraps_at_start:
  "find_peaks \<lparr>cc_threshold = 1 / 2, mad_threshold = 8, combine_thresholds = True\<rparr>
     [9 / 10, 0, 8 / 10, 0, 0, 0, 0, 0, 0, 0, 0, 0] 3
   = ([0, 2], [9 / 10, 8 / 10], [Fin 900000, Fin 800000])"
  by code_simp

text \<open>
  Claim C8 as stated fails in OR mode with \<open>mad_threshold = 0\<close>: the effective threshold
  is \<open>min(0.7, 0 * 1e-6) = 0\<close>, every lag of an all-zero sequence reaches it, and lag 0
  is reported although \<open>cc_threshold\<close> is not met.
\<close>

theorem zero_threshold_accepts:
  "find_peaks \<lparr>cc_threshold = 7 / 10, mad_threshold = 0, combine_thresholds = False\<rparr>
     [0, 0, 0, 0] 3
   = ([0], [0], [Fin 0])"
  by code_simp

text \<open>A candidate with no other candidate within \<open>distance\<close> samples is marked by the
  first loop and survives the exclusion.\<close>

lemma cands_head:
  assumes "filter P [m..<n] = x # it"
  shows "m \<le> x \<and> x < n \<and> P x \<and> it = filter P [Suc x..<n] \<and> (\<forall>j. m \<le> j \<and> j < x \<longrightarrow> \<not> P j)"
  using assms
proof (induction "n - m" arbitrary: m)
  case 0
  then show ?case by simp
next
  case (Suc d)
  then have mn: "m < n" by simp
  then have sp: "filter P [m..<n] = (if P m then m # filter P [Suc m..<n] else filter P [Suc m..<n])"
    by (simp add: upt_conv_Cons)
  show ?case
  proof (cases "P m")
    case True
    with sp Suc.prems mn show ?thesis by auto
  next
    case False
    with sp Suc.prems have f: "filter P [Suc m..<n] = x # it" by simp
    from Suc.hyps(2) have "d = n - Suc m" by simp
    from Suc.hyps(1)[OF this f] have ih: "Suc m \<le> x" "x < n" "P x" "it = filter P [Suc x..<n]"
      "\<forall>j. Suc m \<le> j \<and> j < x \<longrightarrow> \<not> P j" by auto
    have "\<not> P j" if "m \<le> j" "j < x" for j
    proof (cases "j = m")
      case True
      with False show ?thesis by simp
    next
      case ne: False
      with that have "Suc m \<le> j" by simp
      with ih(5) that show ?thesis by simp
    qed
    with ih show ?thesis by auto
  qed
qed

lemma length_run_while:
  "length (fst (run_while thr abs_cc p x peaks it)) = length peaks"
  by (induction thr abs_cc p x peaks it rule: run_while.induct) auto

lemma length_for_tops:
  "length (for_tops thr abs_cc peaks it) = length peaks"
proof (induction thr abs_cc peaks it rule: for_tops.induct)
  case (1 thr abs_cc peaks)
  then show ?case by simp
next
  case (2 thr abs_cc peaks x it)
  show ?case
  proof (cases "abs_cc ! x < thr")
    case True
    then show ?thesis by simp
  next
    case False
    obtain peaks' it' where r: "run_while thr abs_cc (abs_cc ! x) x (peaks[x := True]) it = (peaks', it')"
      by (cases "run_while thr abs_cc (abs_cc ! x) x (peaks[x := True]) it")
    have "length peaks' = length peaks"
      using length_run_while[of thr abs_cc "abs_cc ! x" x "peaks[x := True]" it] r by simp
    with 2[OF False r[symmetric]] False r show ?thesis by simp
  qed
qed

lemma run_while_frame:
  "j < x \<Longrightarrow> fst (run_while thr abs_cc p x peaks it) ! j = peaks ! j"
  by (induction thr abs_cc p x peaks it rule: run_while.induct) auto

lemma for_tops_frame:
  assumes "\<forall>y \<in> set it. m \<le> y" and "j < m"
  shows "for_tops thr abs_cc peaks it ! j = peaks ! j"
  using assms
proof (induction thr abs_cc peaks it rule: for_tops.induct)
  case (1 thr abs_cc peaks)
  then show ?case by simp
next
  case (2 thr abs_cc peaks x it)
  show ?case
  proof (cases "abs_cc ! x < thr")
    case True
    then show ?thesis by simp
  next
    case False
    obtain peaks' it' where r: "run_while thr abs_cc (abs_cc ! x) x (peaks[x := True]) it = (peaks', it')"
      by (cases "run_while thr abs_cc (abs_cc ! x) x (peaks[x := True]) it")
    from 2(2,3) have jx: "j < x" by auto
    have "peaks' ! j = (peaks[x := True]) ! j"
      using run_while_frame[OF jx, of thr abs_cc "abs_cc ! x" "peaks[x := True]" it] r by simp
    with jx have pj: "peaks' ! j = peaks ! j" by simp
    have "set it' \<subseteq> set it"
      using run_while_rest[of thr abs_cc "abs_cc ! x" x "peaks[x := True]" it] r by simp
    with 2(2) have "\<forall>y \<in> set it'. m \<le> y" by auto
    from 2(1)[OF False r[symmetric] this 2(3)] pj False r show ?thesis by simp
  qed
qed

lemma run_while_stops:
  assumes "Suc x = length abs_cc \<or> abs_cc ! Suc x < thr"
  shows "run_while thr abs_cc p x peaks it = (peaks, it)"
  using assms by (cases it) auto

lemma run_while_sync:
  assumes "it = filter (\<lambda>j. thr \<le> abs_cc ! j) [Suc x..<length abs_cc]"
    and "x < k" and "k < length abs_cc" and "thr \<le> abs_cc ! k"
    and "\<not> thr \<le> abs_cc ! (k - 1)" and "thr \<le> abs_cc ! x"
  shows "\<exists>m'. m' \<le> k \<and>
           snd (run_while thr abs_cc p x peaks it)
             = filter (\<lambda>j. thr \<le> abs_cc ! j) [m'..<length abs_cc]"
  using assms
proof (induction thr abs_cc p x peaks it rule: run_while.induct)
  case (1 thr abs_cc p x peaks)
  from 1(2,3,4) have "k \<in> set (filter (\<lambda>j. thr \<le> abs_cc ! j) [Suc x..<length abs_cc])"
    by simp
  with 1(1) show ?case by simp
next
  case (2 thr abs_cc p x peaks y it)
  let ?P = "\<lambda>j. thr \<le> abs_cc ! j"
  from 2(4,5) have x1: "x + 1 < length abs_cc" by simp
  show ?case
  proof (cases "abs_cc ! (x + 1) < thr")
    case True
    with x1 have "snd (run_while thr abs_cc p x peaks (y # it)) = y # it" by simp
    with 2(3,4) show ?thesis by (intro exI[of _ "Suc x"]) simp
  next
    case False
    then have P1: "?P (Suc x)" by simp
    from cands_head[OF 2(3)[symmetric]] have hd: "Suc x \<le> y" "it = filter ?P [Suc y..<length abs_cc]"
      "\<forall>j. Suc x \<le> j \<and> j < y \<longrightarrow> \<not> ?P j" by auto
    from hd(1,3) P1 have y: "y = Suc x" by (metis le_neq_implies_less le_refl)
    with hd(2) have it: "it = filter ?P [Suc (x + 1)..<length abs_cc]" by simp
    from 2(4,7,8) P1 have xk: "x + 1 < k"
      by (metis Suc_eq_plus1 Suc_lessI diff_Suc_1)
    show ?thesis
    proof (cases "p < abs_cc ! (x + 1)")
      case True
      from 2(1)[OF x1 False True it xk 2(5,6,7)] P1 x1 False True show ?thesis by simp
    next
      case np: False
      from 2(2)[OF x1 False np it xk 2(5,6,7)] P1 x1 False np show ?thesis by simp
    qed
  qed
qed

lemma for_tops_marks_isolated:
  assumes "it = filter (\<lambda>j. thr \<le> abs_cc ! j) [m..<length abs_cc]"
    and "length peaks = length abs_cc"
    and "m \<le> k" and "k < length abs_cc" and "thr \<le> abs_cc ! k"
    and "k = 0 \<or> \<not> thr \<le> abs_cc ! (k - 1)"
    and "Suc k = length abs_cc \<or> \<not> thr \<le> abs_cc ! Suc k"
  shows "for_tops thr abs_cc peaks it ! k"
  using assms
proof (induction thr abs_cc peaks it arbitrary: m rule: for_tops.induct)
  case (1 thr abs_cc peaks)
  from 1(3,4,5) have "k \<in> set (filter (\<lambda>j. thr \<le> abs_cc ! j) [m..<length abs_cc])" by simp
  with 1(1) show ?case by simp
next
  case (2 thr abs_cc peaks x it)
  let ?P = "\<lambda>j. thr \<le> abs_cc ! j"
  from cands_head[OF 2(2)[symmetric]] have hd: "m \<le> x" "x < length abs_cc" "?P x"
    "it = filter ?P [Suc x..<length abs_cc]" "\<forall>j. m \<le> j \<and> j < x \<longrightarrow> \<not> ?P j" by auto
  from hd(3) have nb: "\<not> abs_cc ! x < thr" by simp
  from hd(5) 2(4,6) have xk: "x \<le> k" by (metis not_le_imp_less)
  obtain peaks' it' where r: "run_while thr abs_cc (abs_cc ! x) x (peaks[x := True]) it = (peaks', it')"
    by (cases "run_while thr abs_cc (abs_cc ! x) x (peaks[x := True]) it")
  have len: "length peaks' = length abs_cc"
    using length_run_while[of thr abs_cc "abs_cc ! x" x "peaks[x := True]" it] r 2(3) by simp
  show ?case
  proof (cases "x = k")
    case True
    from 2(8) True have "Suc x = length abs_cc \<or> abs_cc ! Suc x < thr" by auto
    from run_while_stops[OF this, of "abs_cc ! x" "peaks[x := True]" it] r
    have e: "peaks' = peaks[x := True]" "it' = it" by simp_all
    have "\<forall>y \<in> set it. Suc k \<le> y" using hd(4) True by auto
    from for_tops_frame[OF this, of k thr abs_cc "peaks[x := True]"]
    have "for_tops thr abs_cc (peaks[x := True]) it ! k = (peaks[x := True]) ! k" by simp
    also have "\<dots>" using True 2(3,5) by simp
    finally show ?thesis using nb r e by simp
  next
    case False
    with xk have lt: "x < k" by simp
    then have "k \<noteq> 0" by simp
    with 2(7) have pk: "\<not> thr \<le> abs_cc ! (k - 1)" by simp
    from run_while_sync[OF hd(4) lt 2(5,6) pk hd(3), of "abs_cc ! x" "peaks[x := True]"] r
    obtain m' where m': "m' \<le> k" "it' = filter ?P [m'..<length abs_cc]" by auto
    from 2(1)[OF nb r[symmetric] m'(2) len m'(1) 2(5,6,7,8)] nb r show ?thesis by simp
  qed
qed

lemma nth_clear_slice_outside:
  assumes "k < length peaks" and "0 \<le> stop" and "\<not> (start \<le> int k \<and> int k < stop)"
  shows "clear_slice peaks start stop ! k = peaks ! k"
proof -
  have "\<not> (slice_bound (length peaks) start \<le> k \<and> k < slice_bound (length peaks) stop)"
    using assms by (auto simp: slice_bound_def split: if_splits)
  with assms(1) show ?thesis by (auto simp: clear_slice_def)
qed

lemma exclude_close_keeps:
  assumes "k < length peaks" and "peaks ! k" and "\<forall>x \<in> set xs. x < length peaks"
    and "\<forall>x < length peaks. peaks ! x \<longrightarrow>
           x = k \<or> \<not> (int x - int distance \<le> int k \<and> int k < int x + int distance)"
  shows "exclude_close distance peaks xs ! k"
  using assms
proof (induction distance peaks xs rule: exclude_close.induct)
  case (1 distance peaks)
  then show ?case by simp
next
  case (2 distance peaks x xs)
  show ?case
  proof (cases "peaks ! x")
    case False
    with 2 show ?thesis by simp
  next
    case True
    let ?c = "clear_slice peaks (int x - int distance) (int x + int distance)"
    let ?p = "?c[x := True]"
    have nn: "\<not> \<not> peaks ! x" using True by simp
    have xl: "x < length peaks" using 2(5) by simp
    have lp: "length ?p = length peaks" by (simp add: length_clear_slice)
    have pk: "?p ! k"
    proof (cases "x = k")
      case True
      with 2(3) show ?thesis by (simp add: length_clear_slice)
    next
      case False
      with True xl 2(6) have "\<not> (int x - int distance \<le> int k \<and> int k < int x + int distance)"
        by blast
      from nth_clear_slice_outside[OF 2(3) _ this] 2(4) False show ?thesis by simp
    qed
    have inv: "\<forall>y < length ?p. ?p ! y \<longrightarrow>
           y = k \<or> \<not> (int y - int distance \<le> int k \<and> int k < int y + int distance)"
    proof (intro allI impI)
      fix y assume y: "y < length ?p" and py: "?p ! y"
      have "peaks ! y"
      proof (cases "y = x")
        case True
        with \<open>peaks ! x\<close> show ?thesis by simp
      next
        case False
        with py y have "?c ! y" by simp
        with y lp show ?thesis using nth_clear_slice[of y peaks] by simp
      qed
      with y lp 2(6) show "y = k \<or> \<not> (int y - int distance \<le> int k \<and> int k < int y + int distance)"
        by simp
    qed
    have "\<forall>x \<in> set xs. x < length ?p" using 2(5) lp by simp
    from 2(2)[OF nn _ pk this inv] 2(3) lp True show ?thesis by simp
  qed
qed

lemma length_exclude_close:
  "length (exclude_close distance peaks xs) = length peaks"
  by (induction distance peaks xs rule: exclude_close.induct) (simp_all add: length_clear_slice)

lemma find_peaks_isolated:
  assumes k: "k < length day_cc" and d: "1 \<le> distance"
    and c: "local_threshold cfg (water_level (daily_mad day_cc)) \<le> \<bar>day_cc ! k\<bar>"
    and iso: "\<forall>j < length day_cc. j \<noteq> k \<and>
                local_threshold cfg (water_level (daily_mad day_cc)) \<le> \<bar>day_cc ! j\<bar>
                \<longrightarrow> int distance < \<bar>int j - int k\<bar>"
  shows "k \<in> set (fst (find_peaks cfg day_cc distance))"
proof -
  let ?thr = "local_threshold cfg (water_level (daily_mad day_cc))"
  let ?a = "map abs day_cc"
  let ?p1 = "for_tops ?thr ?a (replicate (length day_cc) False) (where_ge ?a ?thr)"
  let ?xs = "sorted_by_cc ?a (where_true ?p1)"
  let ?p2 = "exclude_close distance ?p1 ?xs"
  have m: "marks_ok ?thr ?a ?p1"
    by (rule for_tops_marks) (simp_all add: marks_ok_def set_where_ge)
  then have l1: "length ?p1 = length day_cc" by (simp add: marks_ok_def)
  have far: "int distance < \<bar>int j - int k\<bar>" if "j < length day_cc" "j \<noteq> k" "?thr \<le> ?a ! j" for j
    using that iso by simp
  have prev: "k = 0 \<or> \<not> ?thr \<le> ?a ! (k - 1)"
  proof (cases "k = 0")
    case False
    then have "k - 1 < length day_cc" "k - 1 \<noteq> k" using k by simp_all
    from far[OF this] d False show ?thesis by auto
  qed simp
  have nxt: "Suc k = length ?a \<or> \<not> ?thr \<le> ?a ! Suc k"
  proof (cases "Suc k = length day_cc")
    case False
    with k have "Suc k < length day_cc" "Suc k \<noteq> k" by simp_all
    from far[OF this] d show ?thesis by auto
  qed simp
  have p1k: "?p1 ! k"
    by (rule for_tops_marks_isolated[where m = 0])
       (use k c prev nxt in \<open>simp_all add: where_ge_def\<close>)
  have xs: "\<forall>x \<in> set ?xs. x < length ?p1"
    by (simp add: sorted_by_cc_def set_where_true)
  have inv: "\<forall>x < length ?p1. ?p1 ! x \<longrightarrow>
           x = k \<or> \<not> (int x - int distance \<le> int k \<and> int k < int x + int distance)"
  proof (intro allI impI)
    fix x assume x: "x < length ?p1" and px: "?p1 ! x"
    show "x = k \<or> \<not> (int x - int distance \<le> int k \<and> int k < int x + int distance)"
    proof (cases "x = k")
      case False
      from m x px l1 have "?thr \<le> ?a ! x" by (simp add: marks_ok_def)
      from far[OF _ False this] x l1 show ?thesis by auto
    qed simp
  qed
  have "?p2 ! k"
    by (rule exclude_close_keeps) (use k l1 p1k xs inv in simp_all)
  moreover have "length ?p2 = length day_cc" by (simp add: length_exclude_close l1)
  ultimately have "k \<in> set (where_true ?p2)" using k by (simp add: set_where_true)
  then show ?thesis by (simp add: find_peaks_def Let_def)
qed

text \<open>
  Claim C5. For a non-empty correlation sequence, with \<open>mad\<close> the MAD after the water
  level: the effective threshold is \<open>max(cc_threshold, mad_threshold * mad)\<close> when the
  thresholds are combined (AND) and the \<open>min\<close> otherwise (OR), and a lag is a candidate
  exactly when its absolute correlation reaches this threshold. In what \<open>find_peaks\<close>
  returns: a reported lag passes both criteria under AND and one of them under OR, so
  that a lag passing only one criterion is never reported under AND; and a lag that
  passes both criteria under AND, or one of them under OR, is reported whenever no other
  candidate lies within \<open>distance\<close> samples of it (the distance being at least 1).
\<close>

theorem threshold_combination:
  assumes "day_cc \<noteq> []" and "1 \<le> distance"
  shows "\<exists>mad. water_level (daily_mad day_cc) = Some mad \<and>
     local_threshold cfg (Some mad) =
       (if combine_thresholds cfg
        then max (cc_threshold cfg) (mad_threshold cfg * mad)
        else min (cc_threshold cfg) (mad_threshold cfg * mad)) \<and>
     (\<forall>k < length day_cc.
        (k \<in> set (where_ge (map abs day_cc) (local_threshold cfg (Some mad)))
           \<longleftrightarrow> local_threshold cfg (Some mad) \<le> \<bar>day_cc ! k\<bar>) \<and>
        (k \<in> set (fst (find_peaks cfg day_cc distance))
           \<longrightarrow> (if combine_thresholds cfg
                then cc_threshold cfg \<le> \<bar>day_cc ! k\<bar> \<and> mad_threshold cfg * mad \<le> \<bar>day_cc ! k\<bar>
                else cc_threshold cfg \<le> \<bar>day_cc ! k\<bar> \<or> mad_threshold cfg * mad \<le> \<bar>day_cc ! k\<bar>)) \<and>
        ((if combine_thresholds cfg
          then cc_threshold cfg \<le> \<bar>day_cc ! k\<bar> \<and> mad_threshold cfg * mad \<le> \<bar>day_cc ! k\<bar>
          else cc_threshold cfg \<le> \<bar>day_cc ! k\<bar> \<or> mad_threshold cfg * mad \<le> \<bar>day_cc ! k\<bar>) \<and>
         (\<forall>j < length day_cc.
            j \<noteq> k \<and> local_threshold cfg (Some mad) \<le> \<bar>day_cc ! j\<bar>
              \<longrightarrow> int distance < \<bar>int j - int k\<bar>)
           \<longrightarrow> k \<in> set (fst (find_peaks cfg day_cc distance))))"
proof -
  from daily_mad_Some[OF assms(1)] obtain m0 where "daily_mad day_cc = Some m0" ..
  then obtain mad where w: "water_level (daily_mad day_cc) = Some mad"
    by (simp add: water_level_def)
  let ?thr = "local_threshold cfg (Some mad)"
  let ?crit = "\<lambda>k. if combine_thresholds cfg
                then cc_threshold cfg \<le> \<bar>day_cc ! k\<bar> \<and> mad_threshold cfg * mad \<le> \<bar>day_cc ! k\<bar>
                else cc_threshold cfg \<le> \<bar>day_cc ! k\<bar> \<or> mad_threshold cfg * mad \<le> \<bar>day_cc ! k\<bar>"
  have t: "?thr =
       (if combine_thresholds cfg
        then max (cc_threshold cfg) (mad_threshold cfg * mad)
        else min (cc_threshold cfg) (mad_threshold cfg * mad))"
    by (simp add: local_threshold_def)
  have a: "k \<in> set (where_ge (map abs day_cc) ?thr) \<longleftrightarrow> ?thr \<le> \<bar>day_cc ! k\<bar>"
    if "k < length day_cc" for k
    using that by (simp add: set_where_ge)
  have b: "?thr \<le> \<bar>day_cc ! k\<bar> \<longleftrightarrow> ?crit k" for k
    by (simp add: local_threshold_def min_le_iff_disj)
  have c: "?crit k" if "k \<in> set (fst (find_peaks cfg day_cc distance))" for k
    using find_peaks_tops[OF that] w b[of k] by simp
  have d: "k \<in> set (fst (find_peaks cfg day_cc distance))"
    if "k < length day_cc" and "?crit k"
      and "\<forall>j < length day_cc. j \<noteq> k \<and> ?thr \<le> \<bar>day_cc ! j\<bar> \<longrightarrow> int distance < \<bar>int j - int k\<bar>"
    for k
  proof (rule find_peaks_isolated[OF that(1) assms(2)])
    show "local_threshold cfg (water_level (daily_mad day_cc)) \<le> \<bar>day_cc ! k\<bar>"
      using that(2) b[of k] w by simp
    show "\<forall>j<length day_cc.
       j \<noteq> k \<and> local_threshold cfg (water_level (daily_mad day_cc)) \<le> \<bar>day_cc ! j\<bar> \<longrightarrow>
       int distance < \<bar>int j - int k\<bar>"
      using that(3) w by simp
  qed
  show ?thesis
  proof (intro exI[of _ mad] conjI allI impI)
    show "water_level (daily_mad day_cc) = Some mad" by (rule w)
    show "?thr = (if combine_thresholds cfg
        then max (cc_threshold cfg) (mad_threshold cfg * mad)
        else min (cc_threshold cfg) (mad_threshold cfg * mad))" by (rule t)
  next
    fix k assume "k < length day_cc"
    then show "k \<in> set (where_ge (map abs day_cc) ?thr) \<longleftrightarrow> ?thr \<le> \<bar>day_cc ! k\<bar>" by (rule a)
  next
    fix k assume "k \<in> set (fst (find_peaks cfg day_cc distance))"
    then show "?crit k" by (rule c)
  next
    fix k assume "k < length day_cc"
      and "?crit k \<and> (\<forall>j < length day_cc.
            j \<noteq> k \<and> ?thr \<le> \<bar>day_cc ! j\<bar> \<longrightarrow> int distance < \<bar>int j - int k\<bar>)"
    then show "k \<in> set (fst (find_peaks cfg day_cc distance))" using d by blast
  qed
qed

lemma water_level_example:
  "water_level (daily_mad [4 / 5, 0, 0, 0, 0]) = Some (1 / 10 ^ 6)"
  by code_simp

theorem threshold_combination_witness:
  "[4 / 5, 0, 0, 0, 0] \<noteq> ([] :: real list) \<and> (1::nat) \<le> 2 \<and>
   0 \<notin> set (fst (find_peaks \<lparr>cc_threshold = 9 / 10, mad_threshold = 8, combine_thresholds = True\<rparr>
                    [4 / 5, 0, 0, 0, 0] 2)) \<and>
   0 \<in> set (fst (find_peaks \<lparr>cc_threshold = 9 / 10, mad_threshold = 8, combine_thresholds = False\<rparr>
                    [4 / 5, 0, 0, 0, 0] 2))"
proof -
  let ?cc = "[4 / 5, 0, 0, 0, 0 :: real]"
  let ?and = "\<lparr>cc_threshold = 9 / 10, mad_threshold = 8, combine_thresholds = True\<rparr>"
  let ?or = "\<lparr>cc_threshold = 9 / 10, mad_threshold = 8, combine_thresholds = False\<rparr>"
  have ne: "?cc \<noteq> []" and d: "(1::nat) \<le> 2" by simp_all
  have k0: "0 < length ?cc" by simp
  from threshold_combination[OF ne d, of ?and] obtain mad where
    "water_level (daily_mad ?cc) = Some mad"
    and r: "\<And>k. k < length ?cc \<Longrightarrow> k \<in> set (fst (find_peaks ?and ?cc 2)) \<Longrightarrow>
           (if combine_thresholds ?and
            then cc_threshold ?and \<le> \<bar>?cc ! k\<bar> \<and> mad_threshold ?and * mad \<le> \<bar>?cc ! k\<bar>
            else cc_threshold ?and \<le> \<bar>?cc ! k\<bar> \<or> mad_threshold ?and * mad \<le> \<bar>?cc ! k\<bar>)"
    by blast
  have a: "0 \<notin> set (fst (find_peaks ?and ?cc 2))"
  proof
    assume "0 \<in> set (fst (find_peaks ?and ?cc 2))"
    from r[OF k0 this] show False by simp
  qed
  from threshold_combination[OF ne d, of ?or] obtain mad where
    w: "water_level (daily_mad ?cc) = Some mad"
    and r: "\<And>k. k < length ?cc \<Longrightarrow>
           (if combine_thresholds ?or
            then cc_threshold ?or \<le> \<bar>?cc ! k\<bar> \<and> mad_threshold ?or * mad \<le> \<bar>?cc ! k\<bar>
            else cc_threshold ?or \<le> \<bar>?cc ! k\<bar> \<or> mad_threshold ?or * mad \<le> \<bar>?cc ! k\<bar>) \<and>
           (\<forall>j < length ?cc.
              j \<noteq> k \<and> local_threshold ?or (Some mad) \<le> \<bar>?cc ! j\<bar>
                \<longrightarrow> int 2 < \<bar>int j - int k\<bar>)
           \<Longrightarrow> k \<in> set (fst (find_peaks ?or ?cc 2))"
    by blast
  from w water_level_example have m: "mad = 1 / 10 ^ 6" by simp
  have b: "0 \<in> set (fst (find_peaks ?or ?cc 2))"
    by (rule r[OF k0]) (auto simp: m local_threshold_def nth_Cons split: nat.splits)
  from ne d a b show ?thesis by blast
qed


lemma find_peaks_mad_values_finite:
  assumes "v \<in> set (snd (snd (find_peaks cfg day_cc distance)))"
  shows "\<exists>r. v = Fin r"
proof (cases "water_level (daily_mad day_cc)")
  case None
  then have "daily_mad day_cc = None" by (simp add: water_level_def split: option.splits)
  with daily_mad_Some[of day_cc] have "day_cc = []" by auto
  then have "fst (find_peaks cfg day_cc distance) = []"
    using find_peaks_tops[of _ cfg day_cc distance] by (cases "fst (find_peaks cfg day_cc distance)") auto
  with find_peaks_lengths(2)[of cfg day_cc distance] assms show ?thesis by simp
next
  case (Some m)
  then have "m \<noteq> 0" by (rule water_level_nonzero)
  with Some assms show ?thesis by (auto simp: find_peaks_def Let_def fdiv_def)
qed

text \<open>
  Claim C8, as amended. \<open>find_peaks\<close> returns the empty result (and raises nothing) on a
  zero-length sequence and on a sequence that stays below the effective threshold. For
  an all-zero sequence the MAD of zero is replaced by \<open>1e-6\<close>, and the result is empty
  whenever the effective threshold is positive: under AND when \<open>cc_threshold > 0\<close>, under
  OR when \<open>cc_threshold > 0\<close> and \<open>mad_threshold > 0\<close>. No MAD ratio of any result comes
  from a division by zero.
\<close>

theorem empty_detection_cases:
  "find_peaks cfg [] distance = ([], [], []) \<and>
   ((\<forall>x \<in> set day_cc. \<bar>x\<bar> < local_threshold cfg (water_level (daily_mad day_cc)))
      \<longrightarrow> find_peaks cfg day_cc distance = ([], [], [])) \<and>
   (0 < n \<longrightarrow>
      water_level (daily_mad (replicate n 0)) = Some (1 / 10 ^ 6) \<and>
      (0 < local_threshold cfg (Some (1 / 10 ^ 6))
         \<longrightarrow> find_peaks cfg (replicate n 0) distance = ([], [], [])) \<and>
      (combine_thresholds cfg \<and> 0 < cc_threshold cfg
         \<longrightarrow> 0 < local_threshold cfg (Some (1 / 10 ^ 6))) \<and>
      (\<not> combine_thresholds cfg \<and> 0 < cc_threshold cfg \<and> 0 < mad_threshold cfg
         \<longrightarrow> 0 < local_threshold cfg (Some (1 / 10 ^ 6)))) \<and>
   (\<forall>v \<in> set (snd (snd (find_peaks cfg day_cc distance))). \<exists>r. v = Fin r)"
proof -
  have below: "find_peaks cfg cc distance = ([], [], [])"
    if "\<forall>x \<in> set cc. \<bar>x\<bar> < local_threshold cfg (water_level (daily_mad cc))" for cc
  proof (rule find_peaks_no_candidate)
    have "set (where_ge (map abs cc) (local_threshold cfg (water_level (daily_mad cc)))) = {}"
      using that by (auto simp: set_where_ge not_le)
    then show "where_ge (map abs cc) (local_threshold cfg (water_level (daily_mad cc))) = []"
      by simp
  qed
  have e: "find_peaks cfg [] distance = ([], [], [])"
    using below[of "[]"] by simp
  have z: "water_level (daily_mad (replicate n 0)) = Some (1 / 10 ^ 6)" if "0 < n"
    using daily_mad_zeros[OF that] by (simp add: water_level_def)
  have zp: "find_peaks cfg (replicate n 0) distance = ([], [], [])"
    if "0 < n" and "0 < local_threshold cfg (Some (1 / 10 ^ 6))"
    using below[of "replicate n 0"] z[OF that(1)] that(2) by simp
  have ta: "0 < local_threshold cfg (Some (1 / 10 ^ 6))"
    if "combine_thresholds cfg \<and> 0 < cc_threshold cfg"
    using that by (simp add: local_threshold_def less_max_iff_disj)
  have tb: "0 < local_threshold cfg (Some (1 / 10 ^ 6))"
    if "\<not> combine_thresholds cfg \<and> 0 < cc_threshold cfg \<and> 0 < mad_threshold cfg"
    using that by (simp add: local_threshold_def)
  show ?thesis
    using e below[of day_cc] z zp ta tb find_peaks_mad_values_finite[of _ cfg day_cc distance]
    by blast
qed

theorem empty_detection_cases_witness:
  "\<bar>1 / 10 :: real\<bar> <
       local_threshold \<lparr>cc_threshold = 7 / 10, mad_threshold = 8, combine_thresholds = True\<rparr>
         (water_level (daily_mad [1 / 10, 0, - 1 / 5])) \<and>
   \<bar>0 :: real\<bar> <
       local_threshold \<lparr>cc_threshold = 7 / 10, mad_threshold = 8, combine_thresholds = True\<rparr>
         (water_level (daily_mad [1 / 10, 0, - 1 / 5])) \<and>
   \<bar>- 1 / 5 :: real\<bar> <
       local_threshold \<lparr>cc_threshold = 7 / 10, mad_threshold = 8, combine_thresholds = True\<rparr>
         (water_level (daily_mad [1 / 10, 0, - 1 / 5])) \<and>
   find_peaks \<lparr>cc_threshold = 7 / 10, mad_threshold = 8, combine_thresholds = True\<rparr>
      [1 / 10, 0, - 1 / 5] 3 = ([], [], []) \<and>
   (0::nat) < 4 \<and>
   combine_thresholds \<lparr>cc_threshold = 7 / 10, mad_threshold = 8, combine_thresholds = True\<rparr> \<and>
   0 < cc_threshold \<lparr>cc_threshold = 7 / 10, mad_threshold = 8, combine_thresholds = True\<rparr> \<and>
   0 < local_threshold \<lparr>cc_threshold = 7 / 10, mad_threshold = 8, combine_thresholds = True\<rparr>
         (Some (1 / 10 ^ 6)) \<and>
   find_peaks \<lparr>cc_threshold = 7 / 10, mad_threshold = 8, combine_thresholds = True\<rparr>
      (replicate 4 0) 3 = ([], [], [])"
proof -
  let ?cfg = "\<lparr>cc_threshold = 7 / 10, mad_threshold = 8, combine_thresholds = True\<rparr>"
  have h: "\<forall>x \<in> set [1 / 10, 0, - 1 / 5 :: real]. \<bar>x\<bar> <
       local_threshold ?cfg (water_level (daily_mad [1 / 10, 0, - 1 / 5]))"
    by code_simp
  have c: "combine_thresholds ?cfg \<and> 0 < cc_threshold ?cfg" by simp
  show ?thesis
    using h c empty_detection_cases[of ?cfg 3 "[1 / 10, 0, - 1 / 5]" 4]
    by simp
qed

subsection \<open>Properties of the normalisation\<close>






subsection \<open>Properties of the peak detector on a sequence that holds \<open>nan\<close>\<close>

lemma set_where_ge_nan:
  "set (where_ge_nan abs_cc thr) = {k. k < length abs_cc \<and> nan_ge (abs_cc ! k) thr}"
  by (auto simp: where_ge_nan_def)

lemma nan_gt_ge:
  assumes "nan_gt v p" and "\<not> nan_lt v thr"
  shows "nan_ge v thr"
  using assms by (auto simp: nan_gt_def nan_lt_def nan_ge_def split: option.splits)

lemma marks_ok_nan_step:
  assumes "marks_ok_nan thr abs_cc peaks" and "x + 1 < length abs_cc"
    and "\<not> nan_lt (abs_cc ! (x + 1)) thr" and "nan_gt (abs_cc ! (x + 1)) p"
  shows "marks_ok_nan thr abs_cc (peaks[x := False, x + 1 := True])"
  using assms nan_gt_ge[OF assms(4,3)] by (auto simp: marks_ok_nan_def nth_list_update)

lemma run_while_nan_marks:
  "marks_ok_nan thr abs_cc peaks \<Longrightarrow>
   marks_ok_nan thr abs_cc (fst (run_while_nan thr abs_cc p x peaks it))"
proof (induction thr abs_cc p x peaks it rule: run_while_nan.induct)
  case (1 thr abs_cc p x peaks)
  then show ?case using marks_ok_nan_step[of thr abs_cc peaks x p] by auto
next
  case (2 thr abs_cc p x peaks y it)
  then show ?case using marks_ok_nan_step[of thr abs_cc peaks x p] by auto
qed

lemma run_while_nan_rest:
  "set (snd (run_while_nan thr abs_cc p x peaks it)) \<subseteq> set it"
  by (induction thr abs_cc p x peaks it rule: run_while_nan.induct) auto

lemma for_tops_nan_marks:
  assumes "marks_ok_nan thr abs_cc peaks"
    and "\<forall>x \<in> set it. x < length abs_cc \<and> nan_ge (abs_cc ! x) thr"
  shows "marks_ok_nan thr abs_cc (for_tops_nan thr abs_cc peaks it)"
  using assms
proof (induction thr abs_cc peaks it rule: for_tops_nan.induct)
  case (1 thr abs_cc peaks)
  then show ?case by simp
next
  case (2 thr abs_cc peaks x it)
  show ?case
  proof (cases "nan_lt (abs_cc ! x) thr")
    case True
    with 2 show ?thesis by simp
  next
    case False
    obtain peaks' it' where r: "run_while_nan thr abs_cc (abs_cc ! x) x (peaks[x := True]) it = (peaks', it')"
      by (cases "run_while_nan thr abs_cc (abs_cc ! x) x (peaks[x := True]) it")
    have "marks_ok_nan thr abs_cc (peaks[x := True])"
      using 2(2,3) by (auto simp: marks_ok_nan_def nth_list_update)
    from run_while_nan_marks[OF this, of "abs_cc ! x" x it] r
    have m: "marks_ok_nan thr abs_cc peaks'" by simp
    have "set it' \<subseteq> set it"
      using run_while_nan_rest[of thr abs_cc "abs_cc ! x" x "peaks[x := True]" it] r by simp
    with 2(3) have b: "\<forall>x \<in> set it'. x < length abs_cc \<and> nan_ge (abs_cc ! x) thr" by auto
    from 2(1)[OF False r[symmetric] m b] False r show ?thesis by simp
  qed
qed

lemma exclude_close_subset:
  "k < length peaks \<Longrightarrow> exclude_close distance peaks xs ! k \<Longrightarrow> peaks ! k"
proof (induction distance peaks xs rule: exclude_close.induct)
  case (1 distance peaks)
  then show ?case by simp
next
  case (2 distance peaks x xs)
  show ?case
  proof (cases "peaks ! x")
    case False
    with 2 show ?thesis by simp
  next
    case True
    let ?p = "(clear_slice peaks (int x - int distance) (int x + int distance))[x := True]"
    have nn: "\<not> \<not> peaks ! x" using True by simp
    from 2(2)[OF nn] 2(3,4) True have pk: "?p ! k" by (simp add: length_clear_slice)
    show ?thesis
    proof (cases "k = x")
      case True
      with \<open>peaks ! x\<close> show ?thesis by simp
    next
      case False
      with pk 2(3) have "clear_slice peaks (int x - int distance) (int x + int distance) ! k"
        by simp
      with 2(3) show ?thesis using nth_clear_slice[of k peaks] by simp
    qed
  qed
qed

lemma find_peaks_nan_tops:
  assumes "k \<in> set (fst (find_peaks_nan cfg day_cc distance))"
  shows "k < length day_cc \<and> (\<exists>r. day_cc ! k = Some r \<and> cc_threshold cfg \<le> \<bar>r\<bar>)"
proof -
  let ?thr = "local_threshold cfg None"
  let ?a = "map (map_option abs) day_cc"
  let ?p1 = "for_tops_nan ?thr ?a (replicate (length day_cc) False) (where_ge_nan ?a ?thr)"
  let ?p2 = "exclude_close distance ?p1 (sorted_by_cc_nan ?a (where_true ?p1))"
  have "marks_ok_nan ?thr ?a (replicate (length day_cc) False)"
    by (simp add: marks_ok_nan_def)
  then have m: "marks_ok_nan ?thr ?a ?p1"
    by (rule for_tops_nan_marks) (auto simp: set_where_ge_nan)
  from assms have "k \<in> set (where_true ?p2)"
    by (simp add: find_peaks_nan_def Let_def)
  then have k: "k < length ?p2" and pk: "?p2 ! k" by (simp_all add: set_where_true)
  from k have kl: "k < length ?p1" by (simp add: length_exclude_close)
  from kl pk have "?p1 ! k" by (rule exclude_close_subset)
  with m kl have "k < length day_cc" and "nan_ge (?a ! k) ?thr"
    by (simp_all add: marks_ok_nan_def)
  then show ?thesis
    by (cases "day_cc ! k") (simp_all add: nan_ge_def local_threshold_def)
qed

lemma find_peaks_nan_values:
  "fst (snd (find_peaks_nan cfg day_cc distance))
     = map (\<lambda>k. case day_cc ! k of Some r \<Rightarrow> Fin r | None \<Rightarrow> NaN) (fst (find_peaks_nan cfg day_cc distance))"
  by (simp add: find_peaks_nan_def Let_def)

lemma find_peaks_nan_lengths:
  "length (fst (snd (find_peaks_nan cfg day_cc distance))) = length (fst (find_peaks_nan cfg day_cc distance))"
  "length (snd (snd (find_peaks_nan cfg day_cc distance))) = length (fst (find_peaks_nan cfg day_cc distance))"
  by (simp_all add: find_peaks_nan_def Let_def)

subsection \<open>Properties of \<open>matrix_cc\<close>\<close>

lemma cc_safety_check_props:
  "length (snd (cc_safety_check cc)) = length cc"
  "fst (cc_safety_check cc) \<longleftrightarrow> (\<exists>k < length cc. fabs_gt (cc ! k) (101 / 100))"
  "k < length cc \<Longrightarrow> fabs_gt (cc ! k) (101 / 100) \<Longrightarrow> snd (cc_safety_check cc) ! k = Fin 0"
  "k < length cc \<Longrightarrow> \<not> fabs_gt (cc ! k) (101 / 100) \<Longrightarrow> snd (cc_safety_check cc) ! k = cc ! k"
proof -
  have ex: "list_ex id (map (\<lambda>x. fabs_gt x (101 / 100)) cc)
              \<longleftrightarrow> (\<exists>k < length cc. fabs_gt (cc ! k) (101 / 100))"
    by (simp add: list_ex_iff) (metis in_set_conv_nth)
  show "length (snd (cc_safety_check cc)) = length cc"
    by (simp add: cc_safety_check_def Let_def)
  show "fst (cc_safety_check cc) \<longleftrightarrow> (\<exists>k < length cc. fabs_gt (cc ! k) (101 / 100))"
    using ex by (simp add: cc_safety_check_def Let_def)
  show "snd (cc_safety_check cc) ! k = Fin 0"
    if "k < length cc" and "fabs_gt (cc ! k) (101 / 100)"
    using that ex by (auto simp: cc_safety_check_def Let_def)
  show "snd (cc_safety_check cc) ! k = cc ! k"
    if "k < length cc" and "\<not> fabs_gt (cc ! k) (101 / 100)"
    using that by (simp add: cc_safety_check_def Let_def)
qed

lemma cc_safety_check_bounded:
  assumes "v \<in> set (snd (cc_safety_check cc))"
  shows "\<not> fabs_gt v (101 / 100)"
proof -
  from assms obtain k where k: "k < length cc" and v: "v = snd (cc_safety_check cc) ! k"
    by (auto simp: in_set_conv_nth cc_safety_check_props(1))
  show ?thesis
  proof (cases "fabs_gt (cc ! k) (101 / 100)")
    case True
    with k v cc_safety_check_props(3)[of k cc] show ?thesis by simp
  next
    case False
    with k v cc_safety_check_props(4)[of k cc] show ?thesis by simp
  qed
qed

lemma finite_values_Some:
  "finite_values cc = Some rs \<Longrightarrow> cc = map Fin rs"
proof (induction cc arbitrary: rs)
  case Nil
  then show ?case by (simp add: finite_values_def)
next
  case (Cons x cc)
  then show ?case
    by (cases x) (auto simp: finite_values_def split: option.splits)
qed

lemma process_matches_cc:
  "d \<in> set (process_matches peaks cc mad amps data_start template_file) \<Longrightarrow> det_cc d \<in> set cc"
proof -
  assume "d \<in> set (process_matches peaks cc mad amps data_start template_file)"
  then obtain x c m a where z: "(x, c, m, a) \<in> set (zip peaks (zip cc (zip mad amps)))"
    and d: "det_cc d = c"
    by (auto simp: process_matches_def)
  from z have "(c, m, a) \<in> set (zip cc (zip mad amps))" by (rule set_zip_rightD)
  then have "c \<in> set cc" by (rule set_zip_leftD)
  with d show ?thesis by simp
qed

text \<open>What \<open>find_peaks\<close> is given and what it reports, with and without \<open>nan\<close>.\<close>

lemma reported_values:
  assumes "(case finite_values cc of
              Some day_cc \<Rightarrow>
                (case find_peaks cfg day_cc N of
                   (peaks, cc_vals, mad_vals) \<Rightarrow> (peaks, map Fin cc_vals, mad_vals))
            | None \<Rightarrow> find_peaks_nan cfg (nan_entries cc) N) = (peaks, cc_vals, mad_vals)"
  shows "(\<forall>k \<in> set peaks. k < length cc) \<and>
         (\<forall>v \<in> set cc_vals. v \<in> set cc \<and> (\<exists>r. v = Fin r))"
proof (cases "finite_values cc")
  case (Some day_cc)
  then have cc: "cc = map Fin day_cc" by (rule finite_values_Some)
  from assms Some have p: "peaks = fst (find_peaks cfg day_cc N)"
    and v: "cc_vals = map Fin (fst (snd (find_peaks cfg day_cc N)))"
    by (auto split: prod.splits)
  have k: "k < length day_cc" if "k \<in> set peaks" for k
    using that find_peaks_tops[of k cfg day_cc N] p by simp
  have "cc_vals = map (\<lambda>k. Fin (day_cc ! k)) peaks"
    using v p find_peaks_values[of cfg day_cc N] by simp
  with k cc show ?thesis by auto
next
  case None
  let ?e = "nan_entries cc"
  from assms None have p: "peaks = fst (find_peaks_nan cfg ?e N)"
    and v: "cc_vals = fst (snd (find_peaks_nan cfg ?e N))"
    by auto
  have k: "k < length cc \<and> (\<exists>r. cc ! k = Fin r)" if "k \<in> set peaks" for k
  proof -
    from that p find_peaks_nan_tops[of k cfg ?e N]
    obtain r where kl: "k < length ?e" and r: "?e ! k = Some r" by auto
    from kl have "k < length cc" by (simp add: nan_entries_def)
    moreover from this r have "cc ! k = Fin r"
      by (cases "cc ! k") (simp_all add: nan_entries_def)
    ultimately show ?thesis by simp
  qed
  have "cc_vals = map (\<lambda>k. case ?e ! k of Some r \<Rightarrow> Fin r | None \<Rightarrow> NaN) peaks"
    using v p find_peaks_nan_values[of cfg ?e N] by simp
  moreover have "(case ?e ! k of Some r \<Rightarrow> Fin r | None \<Rightarrow> NaN) = cc ! k" if "k \<in> set peaks" for k
    using k[OF that] by (auto simp: nan_entries_def)
  ultimately have "cc_vals = map (\<lambda>k. cc ! k) peaks" by simp
  with k show ?thesis by auto
qed

lemma pair_matches_bounded:
  assumes "pair_matches cfg cc_dtype norm_dtype cc_len N tr dnorm it = Inr ds"
    and "d \<in> set ds"
  shows "\<exists>r. det_cc d = Fin r \<and> \<bar>r\<bar> \<le> 101 / 100"
proof -
  obtain i tp where it: "it = (i, tp)" by (cases it)
  let ?cc = "map (tr_ifft tr i) [0..<min cc_len (length (tr_samples tr) - N + 1)]"
  from assms(1) it obtain temp_amp ccn where
    n: "normalize_cc cc_dtype norm_dtype N dnorm (tp_samples tp) ?cc = Inr ccn"
    and r: "(case (case finite_values (snd (cc_safety_check ccn)) of
                     Some day_cc \<Rightarrow>
                       (case find_peaks cfg day_cc N of
                          (peaks, cc_vals, mad_vals) \<Rightarrow> (peaks, map Fin cc_vals, mad_vals))
                   | None \<Rightarrow> find_peaks_nan cfg (nan_entries (snd (cc_safety_check ccn))) N) of
              (peaks, cc_vals, mad_vals) \<Rightarrow>
                if length peaks = 0 then Inr []
                else (case amp_ratios (map abs (tr_samples tr)) N temp_amp peaks of
                        Inl e \<Rightarrow> Inl (Raised e)
                      | Inr amps \<Rightarrow>
                          Inr (process_matches peaks cc_vals mad_vals amps
                                 (tr_start tr) (tp_file tp)))) = Inr ds"
    by (auto simp: pair_matches_def Let_def split: sum.splits)
  let ?sc = "snd (cc_safety_check ccn)"
  obtain peaks cc_vals mad_vals where fp:
    "(case finite_values ?sc of
        Some day_cc \<Rightarrow>
          (case find_peaks cfg day_cc N of
             (peaks, cc_vals, mad_vals) \<Rightarrow> (peaks, map Fin cc_vals, mad_vals))
      | None \<Rightarrow> find_peaks_nan cfg (nan_entries ?sc) N) = (peaks, cc_vals, mad_vals)"
    by (metis prod_cases3)
  from r assms(2) obtain amps where
    "ds = process_matches peaks cc_vals mad_vals amps (tr_start tr) (tp_file tp)"
    unfolding fp by (auto split: if_splits sum.splits)
  with assms(2) have "det_cc d \<in> set cc_vals" by (auto dest: process_matches_cc)
  with reported_values[OF fp] obtain r where "det_cc d = Fin r" and "det_cc d \<in> set ?sc"
    by auto
  with cc_safety_check_bounded[of "det_cc d" ccn] show ?thesis by auto
qed

lemma temps_loop_all:
  assumes "\<And>it ds d. body it = Inr ds \<Longrightarrow> d \<in> set ds \<Longrightarrow> P d"
  shows "d \<in> set (fst (temps_loop body its)) \<Longrightarrow> P d"
  using assms
  by (induction its arbitrary: d) (auto split: sum.splits prod.splits)

lemma traces_loop_all:
  assumes "\<And>x d. d \<in> set (fst (body x)) \<Longrightarrow> P d"
  shows "d \<in> set (fst (traces_loop body N xs)) \<Longrightarrow> P d"
proof (induction xs arbitrary: d)
  case Nil
  then show ?case by simp
next
  case (Cons x xs)
  show ?case
  proof (cases "length (tr_samples x) < N")
    case True
    with Cons show ?thesis by simp
  next
    case False
    obtain out st where b: "body x = (out, st)" by (cases "body x")
    have o: "P e" if "e \<in> set out" for e using assms[of e x] b that by simp
    show ?thesis
    proof (cases st)
      case None
      with Cons.prems False b o Cons.IH show ?thesis
        by (auto split: prod.splits)
    next
      case (Some h)
      with Cons.prems False b o show ?thesis by auto
    qed
  qed
qed

lemma matrix_cc_bounded:
  assumes "d \<in> set (fst (matrix_cc cfg cc_dtype norm_dtype nfl N templates data))"
  shows "\<exists>r. det_cc d = Fin r \<and> \<bar>r\<bar> \<le> 101 / 100"
proof -
  have t: "\<exists>r. det_cc e = Fin r \<and> \<bar>r\<bar> \<le> 101 / 100"
    if "e \<in> set (fst (trace_matches cfg cc_dtype norm_dtype cc_len N templates x))" for e x cc_len
  proof (cases "data_norm (tr_samples x) N")
    case (Inl err)
    with that show ?thesis by (simp add: trace_matches_def)
  next
    case (Inr dnorm)
    with that have "e \<in> set (fst (temps_loop (pair_matches cfg cc_dtype norm_dtype cc_len N x dnorm)
                     (enumerate 0 templates)))"
      by (simp add: trace_matches_def)
    then show ?thesis
      by (rule temps_loop_all[rotated]) (rule pair_matches_bounded)
  qed
  let ?cc_len = "nfl (Max (set (map (\<lambda>tr. length (tr_samples tr)) data)))"
  from assms have "d \<in> set (fst (traces_loop (trace_matches cfg cc_dtype norm_dtype ?cc_len N templates) N data))"
    by (auto simp: matrix_cc_def Let_def split: if_splits prod.splits option.splits)
  then show ?thesis
    by (rule traces_loop_all[rotated]) (rule t)
qed

text \<open>No pair of a chunk raises: the shapes of the arrays fit.\<close>

lemma amp_ratios_returns:
  assumes "0 < N" and "\<forall>idx \<in> set peaks. idx < length data_abs"
  shows "\<exists>amps. amp_ratios data_abs N temp_amp peaks = Inr amps"
  using assms(2)
proof (induction peaks)
  case Nil
  then show ?case by simp
next
  case (Cons idx peaks)
  then obtain amps where a: "amp_ratios data_abs N temp_amp peaks = Inr amps" by auto
  from Cons.prems assms(1) have "take N (drop idx data_abs) \<noteq> []" by simp
  then obtain m where "np_max (take N (drop idx data_abs)) = Inr m"
    by (cases "take N (drop idx data_abs)") (simp_all add: np_max_def)
  with a show ?case by simp
qed

lemma normalize_cc_returns:
  assumes "length cc = length dnorm"
  shows "\<exists>ccn. normalize_cc cc_dtype norm_dtype N dnorm temp_tr cc = Inr ccn \<and> length ccn = length cc"
  using assms by (auto simp: normalize_cc_def Let_def)

lemma pair_matches_returns:
  assumes N: "1 \<le> N" and tp: "tp_samples tp \<noteq> []"
    and M: "N \<le> length (tr_samples d)" and L: "length (tr_samples d) \<le> cc_len"
    and dn: "data_norm (tr_samples d) N = Inr dnorm"
  shows "\<exists>ds. pair_matches cfg cc_dtype norm_dtype cc_len N d dnorm (i, tp) = Inr ds"
proof -
  let ?M = "length (tr_samples d)"
  let ?cc = "map (tr_ifft d i) [0..<min cc_len (?M - N + 1)]"
  from tp obtain temp_amp where ta: "np_max (map abs (tp_samples tp)) = Inr temp_amp"
    by (cases "tp_samples tp") (simp_all add: np_max_def)
  have "length dnorm = ?M - N + 1" using data_norm_value[OF N M] dn by auto
  moreover have "length ?cc = ?M - N + 1" using N M L by simp
  ultimately have "length ?cc = length dnorm" by simp
  from normalize_cc_returns[OF this, of cc_dtype norm_dtype N "tp_samples tp"]
  obtain ccn where n: "normalize_cc cc_dtype norm_dtype N dnorm (tp_samples tp) ?cc = Inr ccn"
    and ln: "length ccn = ?M - N + 1" using \<open>length ?cc = ?M - N + 1\<close> by auto
  let ?sc = "snd (cc_safety_check ccn)"
  have ls: "length ?sc = ?M - N + 1" using ln by (simp add: cc_safety_check_props(1))
  obtain peaks cc_vals mad_vals where fp:
    "(case finite_values ?sc of
        Some day_cc \<Rightarrow>
          (case find_peaks cfg day_cc N of
             (peaks, cc_vals, mad_vals) \<Rightarrow> (peaks, map Fin cc_vals, mad_vals))
      | None \<Rightarrow> find_peaks_nan cfg (nan_entries ?sc) N) = (peaks, cc_vals, mad_vals)"
    by (metis prod_cases3)
  have "\<forall>idx \<in> set peaks. idx < length (map abs (tr_samples d))"
    using reported_values[OF fp] ls N M by auto
  from amp_ratios_returns[OF _ this, of N temp_amp] N
  obtain amps where am: "amp_ratios (map abs (tr_samples d)) N temp_amp peaks = Inr amps"
    by auto
  show ?thesis
    unfolding pair_matches_def Let_def prod.case ta n sum.case fp am
    by simp
qed

lemma temps_loop_returns:
  assumes "\<forall>it \<in> set its. \<exists>ds. body it = Inr ds"
  shows "temps_loop body its
           = (concat (map (\<lambda>it. case body it of Inl h \<Rightarrow> [] | Inr ds \<Rightarrow> ds) its), None)"
  using assms by (induction its) auto

lemma trace_matches_returns:
  assumes N: "1 \<le> N" and tps: "\<forall>tp \<in> set templates. length (tp_samples tp) = N"
    and M: "N \<le> length (tr_samples d)" and L: "length (tr_samples d) \<le> cc_len"
  shows "trace_matches cfg cc_dtype norm_dtype cc_len N templates d
           = (concat (map (pair_lines cfg cc_dtype norm_dtype cc_len N d) (enumerate 0 templates)),
              None)"
    and "\<forall>it \<in> set (enumerate 0 templates).
           \<exists>dnorm. data_norm (tr_samples d) N = Inr dnorm \<and>
             pair_matches cfg cc_dtype norm_dtype cc_len N d dnorm it
               = Inr (pair_lines cfg cc_dtype norm_dtype cc_len N d it)"
proof -
  from data_norm_value[OF N M] obtain dnorm where dn: "data_norm (tr_samples d) N = Inr dnorm"
    by auto
  have ret: "\<exists>ds. pair_matches cfg cc_dtype norm_dtype cc_len N d dnorm it = Inr ds"
    if "it \<in> set (enumerate 0 templates)" for it
  proof -
    obtain i tp where it: "it = (i, tp)" by (cases it)
    with that have "tp \<in> set templates" by (auto simp: in_set_enumerate_eq)
    with tps N have "tp_samples tp \<noteq> []" by auto
    from pair_matches_returns[OF N this M L dn] it show ?thesis by simp
  qed
  have pl: "pair_lines cfg cc_dtype norm_dtype cc_len N d
          = (\<lambda>it. case pair_matches cfg cc_dtype norm_dtype cc_len N d dnorm it of
                    Inl h \<Rightarrow> [] | Inr ds \<Rightarrow> ds)"
    by (rule ext) (simp add: pair_lines_def dn)
  show "trace_matches cfg cc_dtype norm_dtype cc_len N templates d
           = (concat (map (pair_lines cfg cc_dtype norm_dtype cc_len N d) (enumerate 0 templates)),
              None)"
    unfolding trace_matches_def dn sum.case pl
    by (rule temps_loop_returns) (use ret in blast)
  show "\<forall>it \<in> set (enumerate 0 templates).
           \<exists>dnorm. data_norm (tr_samples d) N = Inr dnorm \<and>
             pair_matches cfg cc_dtype norm_dtype cc_len N d dnorm it
               = Inr (pair_lines cfg cc_dtype norm_dtype cc_len N d it)"
  proof
    fix it assume "it \<in> set (enumerate 0 templates)"
    from ret[OF this] obtain ds where
      "pair_matches cfg cc_dtype norm_dtype cc_len N d dnorm it = Inr ds" ..
    then show "\<exists>dnorm. data_norm (tr_samples d) N = Inr dnorm \<and>
             pair_matches cfg cc_dtype norm_dtype cc_len N d dnorm it
               = Inr (pair_lines cfg cc_dtype norm_dtype cc_len N d it)"
      using dn by (simp add: pl)
  qed
qed

lemma traces_loop_returns:
  assumes "\<forall>x \<in> set xs. N \<le> length (tr_samples x) \<longrightarrow> body x = (f x, None)"
  shows "traces_loop body N xs
           = (concat (map f (filter (\<lambda>x. N \<le> length (tr_samples x)) xs)), None)"
  using assms by (induction xs) (auto simp: not_le)

lemma matrix_cc_returns:
  assumes N: "1 \<le> N" and tps: "\<forall>tp \<in> set templates. length (tp_samples tp) = N"
    and nfl: "\<forall>n. n \<le> nfl n" and ne: "data \<noteq> []"
  shows "matrix_cc cfg cc_dtype norm_dtype nfl N templates data =
     (let cc_len = nfl (Max (set (map (\<lambda>tr. length (tr_samples tr)) data)));
          out = concat (map (\<lambda>x. concat (map (pair_lines cfg cc_dtype norm_dtype cc_len N x)
                                            (enumerate 0 templates)))
                         (filter (\<lambda>x. N \<le> length (tr_samples x)) data))
      in (out, Inr (length out)))"
proof -
  let ?S = "set (map (\<lambda>tr. length (tr_samples tr)) data)"
  let ?cc_len = "nfl (Max ?S)"
  have L: "length (tr_samples x) \<le> ?cc_len" if "x \<in> set data" for x
  proof -
    from that have "length (tr_samples x) \<le> Max ?S" by simp
    also have "\<dots> \<le> nfl (Max ?S)" using nfl by simp
    finally show ?thesis .
  qed
  have body: "\<forall>x \<in> set data. N \<le> length (tr_samples x) \<longrightarrow>
      trace_matches cfg cc_dtype norm_dtype ?cc_len N templates x
        = (concat (map (pair_lines cfg cc_dtype norm_dtype ?cc_len N x) (enumerate 0 templates)),
           None)"
    using trace_matches_returns(1)[OF N tps _ L] by blast
  have tl: "traces_loop (trace_matches cfg cc_dtype norm_dtype ?cc_len N templates) N data
      = (concat (map (\<lambda>x. concat (map (pair_lines cfg cc_dtype norm_dtype ?cc_len N x)
                                      (enumerate 0 templates)))
                   (filter (\<lambda>x. N \<le> length (tr_samples x)) data)), None)"
    by (rule traces_loop_returns) (rule body)
  show ?thesis
  proof (cases "N > ?cc_len")
    case False
    with ne tl show ?thesis by (simp add: matrix_cc_def Let_def)
  next
    case True
    have "\<not> N \<le> length (tr_samples x)" if "x \<in> set data" for x
      using L[OF that] True by linarith
    then have "filter (\<lambda>x. N \<le> length (tr_samples x)) data = []"
      by (simp add: filter_empty_conv)
    with True ne show ?thesis by (simp add: matrix_cc_def Let_def)
  qed
qed

text \<open>A sequence with a \<open>nan\<close> entry between two candidates: the \<open>while\<close> loop passes
  over it, and the stronger lag is reported with a MAD ratio of \<open>nan\<close>.\<close>

lemma find_peaks_nan_example:
  "find_peaks_nan \<lparr>cc_threshold = 7 / 10, mad_threshold = 8, combine_thresholds = True\<rparr>
     [Some (8 / 10), None, Some (9 / 10), Some (1 / 10)] 2
   = ([2], [Fin (9 / 10)], [NaN])"
  by code_simp

text \<open>
  A chunk of two templates and one data trace, run through \<open>matrix_cc\<close>. The first
  template is silent: every lag is \<open>0 / 0\<close>, nothing is reported, and the loop goes on.
  With the second template the lag 1 is normalised to 2, zeroed by the safety check,
  and the lag 0 is reported.
\<close>

lemma data_norm_example: "data_norm [1, 0, 1, 0] 2 = Inr [1, 1, 1]"
  by (simp add: data_norm_def pad_zeros_def window_sum_def convolve_valid_def upt_rec
        numeral_2_eq_2)

lemma floor32_window2: "\<not> (1 \<le> sqrt (finfo_eps Float32 * real 2))"
proof -
  have "sqrt (finfo_eps Float32 * real 2) < sqrt 1"
    by (subst real_sqrt_less_iff) simp
  then show ?thesis by simp
qed

lemma pair_silent_template:
  "pair_matches \<lparr>cc_threshold = 7 / 10, mad_threshold = 8, combine_thresholds = True\<rparr>
      Float32 Float32 4 2
      \<lparr>tr_samples = [1, 0, 1, 0], tr_start = 0,
        tr_ifft = (\<lambda>i k. if i = 0 then 0 else [1, 2, 0] ! k)\<rparr>
      [1, 1, 1] (0, \<lparr>tp_file = ''t0'', tp_samples = [0, 0]\<rparr>)
   = Inr []"
proof -
  let ?cfg = "\<lparr>cc_threshold = 7 / 10, mad_threshold = 8, combine_thresholds = True\<rparr>"
  let ?tr = "\<lparr>tr_samples = [1, 0, 1, 0], tr_start = 0,
               tr_ifft = (\<lambda>i k. if i = 0 then 0 else [1, 2, 0 :: real] ! k)\<rparr>"
  have raw: "map (tr_ifft ?tr 0) [0..<min 4 (length (tr_samples ?tr) - 2 + 1)] = [0, 0, 0]"
    by (simp add: upt_rec)
  have nz: "normalize_cc Float32 Float32 2 [1, 1, 1] [0, 0] [0, 0, 0] = Inr [NaN, NaN, NaN]"
    using floor32_window2 by (simp add: normalize_cc_def fdiv_def)
  have sc: "cc_safety_check [NaN, NaN, NaN] = (False, [NaN, NaN, NaN])"
    by (simp add: cc_safety_check_def)
  have fv: "finite_values [NaN, NaN, NaN] = None"
    by (simp add: finite_values_def)
  have ne: "nan_entries [NaN, NaN, NaN] = [None, None, None]"
    by (simp add: nan_entries_def)
  have fp: "find_peaks_nan ?cfg [None, None, None] 2 = ([], [], [])"
    by code_simp
  show ?thesis
    unfolding pair_matches_def Let_def prod.case raw
    using nz sc fv ne fp by (simp add: np_max_def)
qed

lemma pair_corrupt_lag:
  "pair_matches \<lparr>cc_threshold = 7 / 10, mad_threshold = 8, combine_thresholds = True\<rparr>
      Float32 Float32 4 2
      \<lparr>tr_samples = [1, 0, 1, 0], tr_start = 0,
        tr_ifft = (\<lambda>i k. if i = 0 then 0 else [1, 2, 0] ! k)\<rparr>
      [1, 1, 1] (1, \<lparr>tp_file = ''t1'', tp_samples = [1, 0]\<rparr>)
   = Inr [\<lparr>det_file = ''t1'', det_start = 0, det_lag = 0, det_cc = Fin 1,
           det_mad = Fin 1000000, det_amp = Fin 1\<rparr>]"
proof -
  let ?cfg = "\<lparr>cc_threshold = 7 / 10, mad_threshold = 8, combine_thresholds = True\<rparr>"
  let ?tr = "\<lparr>tr_samples = [1, 0, 1, 0], tr_start = 0,
               tr_ifft = (\<lambda>i k. if i = 0 then 0 else [1, 2, 0 :: real] ! k)\<rparr>"
  have raw: "map (tr_ifft ?tr 1) [0..<min 4 (length (tr_samples ?tr) - 2 + 1)] = [1, 2, 0]"
    by (simp add: upt_rec)
  have nz: "normalize_cc Float32 Float32 2 [1, 1, 1] [1, 0] [1, 2, 0] = Inr [Fin 1, Fin 2, Fin 0]"
    using floor32_window2 by (simp add: normalize_cc_def fdiv_def)
  have sc: "cc_safety_check [Fin 1, Fin 2, Fin 0] = (True, [Fin 1, Fin 0, Fin 0])"
    by (simp add: cc_safety_check_def)
  have fv: "finite_values [Fin 1, Fin 0, Fin 0] = Some [1, 0, 0]"
    by (simp add: finite_values_def)
  have fp: "find_peaks ?cfg [1, 0, 0] 2 = ([0], [1], [Fin 1000000])"
    by code_simp
  have am: "amp_ratios (map abs (tr_samples ?tr)) 2 1 [0] = Inr [Fin 1]"
    by (simp add: np_max_def fdiv_def)
  show ?thesis
    unfolding pair_matches_def Let_def prod.case raw
    using nz sc fv fp am by (simp add: np_max_def process_matches_def)
qed

lemma matrix_cc_example:
  "matrix_cc \<lparr>cc_threshold = 7 / 10, mad_threshold = 8, combine_thresholds = True\<rparr>
      Float32 Float32 (\<lambda>n. n) 2
      [\<lparr>tp_file = ''t0'', tp_samples = [0, 0]\<rparr>, \<lparr>tp_file = ''t1'', tp_samples = [1, 0]\<rparr>]
      [\<lparr>tr_samples = [1, 0, 1, 0], tr_start = 0,
        tr_ifft = (\<lambda>i k. if i = 0 then 0 else [1, 2, 0] ! k)\<rparr>]
   = ([\<lparr>det_file = ''t1'', det_start = 0, det_lag = 0, det_cc = Fin 1,
        det_mad = Fin 1000000, det_amp = Fin 1\<rparr>], Inr 1)"
proof -
  let ?cfg = "\<lparr>cc_threshold = 7 / 10, mad_threshold = 8, combine_thresholds = True\<rparr>"
  let ?t0 = "\<lparr>tp_file = ''t0'', tp_samples = [0, 0]\<rparr>"
  let ?t1 = "\<lparr>tp_file = ''t1'', tp_samples = [1, 0]\<rparr>"
  let ?tr = "\<lparr>tr_samples = [1, 0, 1, 0], tr_start = 0,
               tr_ifft = (\<lambda>i k. if i = 0 then 0 else [1, 2, 0 :: real] ! k)\<rparr>"
  have tm: "trace_matches ?cfg Float32 Float32 4 2 [?t0, ?t1] ?tr
      = ([\<lparr>det_file = ''t1'', det_start = 0, det_lag = 0, det_cc = Fin 1,
            det_mad = Fin 1000000, det_amp = Fin 1\<rparr>], None)"
    using data_norm_example pair_silent_template pair_corrupt_lag
    by (simp add: trace_matches_def enumerate_eq_zip upt_rec)
  show ?thesis
    using tm by (simp add: matrix_cc_def eval_nat_numeral)
qed

text \<open>
  Claim C4. The safety check keeps the length of the correlation sequence, sets to 0
  exactly the lags whose absolute value exceeds 1.01 and reports (the printed warning)
  whether there was one; it runs before \<open>find_peaks\<close>, and every line that \<open>matrix_cc\<close>
  appends to a match file has a correlation value that is a number of absolute value
  at most 1.01.
\<close>

theorem corrupt_lags_zeroed:
  "length (snd (cc_safety_check cc)) = length cc \<and>
   (fst (cc_safety_check cc) \<longleftrightarrow> (\<exists>k < length cc. fabs_gt (cc ! k) 1.01)) \<and>
   (\<forall>k < length cc.
      snd (cc_safety_check cc) ! k = (if fabs_gt (cc ! k) 1.01 then Fin 0 else cc ! k)) \<and>
   (\<forall>d \<in> set (fst (matrix_cc cfg cc_dtype norm_dtype nfl N templates data)).
      \<exists>r. det_cc d = Fin r \<and> \<bar>r\<bar> \<le> 1.01)"
  using cc_safety_check_props[where cc = cc] matrix_cc_bounded[of _ cfg cc_dtype norm_dtype nfl N templates data]
  by auto

theorem corrupt_lags_zeroed_witness:
  "(1::nat) < length [Fin 1, Fin 2, Fin 0] \<and>
   snd (cc_safety_check [Fin 1, Fin 2, Fin 0]) ! 1 = Fin 0 \<and>
   \<lparr>det_file = ''t1'', det_start = 0, det_lag = 0, det_cc = Fin 1,
     det_mad = Fin 1000000, det_amp = Fin 1\<rparr>
     \<in> set (fst (matrix_cc \<lparr>cc_threshold = 7 / 10, mad_threshold = 8, combine_thresholds = True\<rparr>
            Float32 Float32 (\<lambda>n. n) 2
            [\<lparr>tp_file = ''t0'', tp_samples = [0, 0]\<rparr>, \<lparr>tp_file = ''t1'', tp_samples = [1, 0]\<rparr>]
            [\<lparr>tr_samples = [1, 0, 1, 0], tr_start = 0,
              tr_ifft = (\<lambda>i k. if i = 0 then 0 else [1, 2, 0] ! k)\<rparr>])) \<and>
   (\<exists>r. det_cc \<lparr>det_file = ''t1'', det_start = 0, det_lag = 0, det_cc = Fin 1,
                 det_mad = Fin 1000000, det_amp = Fin 1\<rparr> = Fin r \<and> \<bar>r\<bar> \<le> 1.01)"
  using corrupt_lags_zeroed[of "[Fin 1, Fin 2, Fin 0]"
      "\<lparr>cc_threshold = 7 / 10, mad_threshold = 8, combine_thresholds = True\<rparr>"
      Float32 Float32 "\<lambda>n. n" 2
      "[\<lparr>tp_file = ''t0'', tp_samples = [0, 0]\<rparr>, \<lparr>tp_file = ''t1'', tp_samples = [1, 0]\<rparr>]"
      "[\<lparr>tr_samples = [1, 0, 1, 0], tr_start = 0,
         tr_ifft = (\<lambda>i k. if i = 0 then 0 else [1, 2, 0] ! k)\<rparr>]"]
    matrix_cc_example
  by simp

lemma pair_lines_example:
  "pair_lines \<lparr>cc_threshold = 7 / 10, mad_threshold = 8, combine_thresholds = True\<rparr>
      Float32 Float32 4 2
      \<lparr>tr_samples = [1, 0, 1, 0], tr_start = 0,
        tr_ifft = (\<lambda>i k. if i = 0 then 0 else [1, 2, 0] ! k)\<rparr>
      (0, \<lparr>tp_file = ''t0'', tp_samples = [0, 0]\<rparr>) = []"
  "pair_lines \<lparr>cc_threshold = 7 / 10, mad_threshold = 8, combine_thresholds = True\<rparr>
      Float32 Float32 4 2
      \<lparr>tr_samples = [1, 0, 1, 0], tr_start = 0,
        tr_ifft = (\<lambda>i k. if i = 0 then 0 else [1, 2, 0] ! k)\<rparr>
      (1, \<lparr>tp_file = ''t1'', tp_samples = [1, 0]\<rparr>)
   = [\<lparr>det_file = ''t1'', det_start = 0, det_lag = 0, det_cc = Fin 1,
        det_mad = Fin 1000000, det_amp = Fin 1\<rparr>]"
  using data_norm_example pair_silent_template pair_corrupt_lag
  by (simp_all add: pair_lines_def)

lemma four_unary: "(4::nat) = Suc (Suc (Suc (Suc 0)))"
  by simp

text \<open>
  Claim C7. Let a chunk hold a data trace that is shorter than the templates, the rows
  of the template array having \<open>N\<close> samples each, and let \<open>next_fast_len\<close> never return
  less than its argument. Then \<open>matrix_cc\<close> raises nothing and returns the number of
  lines it has written; the short trace contributes no line; and every other pair of
  the chunk is processed: the lines written are, trace by trace and template by
  template, the lines of the pairs whose trace has at least \<open>N\<close> samples, none of which
  raises.
\<close>

theorem short_traces_skipped:
  assumes "length (tr_samples d) < N"
    and "\<forall>tp \<in> set templates. length (tp_samples tp) = N"
    and "\<forall>n. n \<le> nfl n"
  shows "let cc_len = nfl (Max (set (map (\<lambda>tr. length (tr_samples tr)) (ds1 @ d # ds2))));
             lines = pair_lines cfg cc_dtype norm_dtype cc_len N;
             out = concat (map (\<lambda>x. concat (map (lines x) (enumerate 0 templates)))
                             (filter (\<lambda>x. N \<le> length (tr_samples x)) (ds1 @ ds2)))
         in matrix_cc cfg cc_dtype norm_dtype nfl N templates (ds1 @ d # ds2)
              = (out, Inr (length out)) \<and>
            (\<forall>x \<in> set (ds1 @ ds2). N \<le> length (tr_samples x) \<longrightarrow>
               (\<forall>it \<in> set (enumerate 0 templates).
                  \<exists>dnorm. data_norm (tr_samples x) N = Inr dnorm \<and>
                    pair_matches cfg cc_dtype norm_dtype cc_len N x dnorm it
                      = Inr (lines x it)))"
proof -
  let ?data = "ds1 @ d # ds2"
  let ?S = "set (map (\<lambda>tr. length (tr_samples tr)) ?data)"
  let ?cc_len = "nfl (Max ?S)"
  have N: "1 \<le> N" using assms(1) by simp
  have f: "filter (\<lambda>x. N \<le> length (tr_samples x)) ?data
         = filter (\<lambda>x. N \<le> length (tr_samples x)) (ds1 @ ds2)"
    using assms(1) by simp
  have m: "matrix_cc cfg cc_dtype norm_dtype nfl N templates ?data =
     (let out = concat (map (\<lambda>x. concat (map (pair_lines cfg cc_dtype norm_dtype ?cc_len N x)
                                            (enumerate 0 templates)))
                         (filter (\<lambda>x. N \<le> length (tr_samples x)) (ds1 @ ds2)))
      in (out, Inr (length out)))"
    using matrix_cc_returns[OF N assms(2,3), of ?data cfg cc_dtype norm_dtype]
    unfolding Let_def f by simp
  have L: "length (tr_samples x) \<le> ?cc_len" if "x \<in> set (ds1 @ ds2)" for x
  proof -
    from that have "x \<in> set ?data" by auto
    then have "length (tr_samples x) \<in> ?S" by (simp only: set_map) (rule imageI)
    then have "length (tr_samples x) \<le> Max ?S" by (intro Max_ge) simp_all
    also have "\<dots> \<le> nfl (Max ?S)" using assms(3) by simp
    finally show ?thesis .
  qed
  have p: "\<forall>it \<in> set (enumerate 0 templates).
                  \<exists>dnorm. data_norm (tr_samples x) N = Inr dnorm \<and>
                    pair_matches cfg cc_dtype norm_dtype ?cc_len N x dnorm it
                      = Inr (pair_lines cfg cc_dtype norm_dtype ?cc_len N x it)"
    if "x \<in> set (ds1 @ ds2)" and "N \<le> length (tr_samples x)" for x
    using trace_matches_returns(2)[OF N assms(2) that(2) L[OF that(1)]] .
  from m p show ?thesis unfolding Let_def by blast
qed

theorem short_traces_skipped_witness:
  "length (tr_samples \<lparr>tr_samples = [3], tr_start = 5, tr_ifft = (\<lambda>i k. 0)\<rparr>) < 2 \<and>
   length (tp_samples \<lparr>tp_file = ''t0'', tp_samples = [0, 0]\<rparr>) = 2 \<and>
   length (tp_samples \<lparr>tp_file = ''t1'', tp_samples = [1, 0]\<rparr>) = 2 \<and>
   (\<forall>n::nat. n \<le> (\<lambda>n. n) n) \<and>
   matrix_cc \<lparr>cc_threshold = 7 / 10, mad_threshold = 8, combine_thresholds = True\<rparr>
      Float32 Float32 (\<lambda>n. n) 2
      [\<lparr>tp_file = ''t0'', tp_samples = [0, 0]\<rparr>, \<lparr>tp_file = ''t1'', tp_samples = [1, 0]\<rparr>]
      [\<lparr>tr_samples = [1, 0, 1, 0], tr_start = 0,
        tr_ifft = (\<lambda>i k. if i = 0 then 0 else [1, 2, 0] ! k)\<rparr>,
       \<lparr>tr_samples = [3], tr_start = 5, tr_ifft = (\<lambda>i k. 0)\<rparr>]
   = ([\<lparr>det_file = ''t1'', det_start = 0, det_lag = 0, det_cc = Fin 1,
        det_mad = Fin 1000000, det_amp = Fin 1\<rparr>], Inr 1)"
  using short_traces_skipped[of "\<lparr>tr_samples = [3], tr_start = 5, tr_ifft = (\<lambda>i k. 0)\<rparr>" 2
      "[\<lparr>tp_file = ''t0'', tp_samples = [0, 0]\<rparr>, \<lparr>tp_file = ''t1'', tp_samples = [1, 0]\<rparr>]"
      "\<lambda>n. n"
      "[\<lparr>tr_samples = [1, 0, 1, 0], tr_start = 0,
         tr_ifft = (\<lambda>i k. if i = 0 then 0 else [1, 2, 0] ! k)\<rparr>]" "[]"
      "\<lparr>cc_threshold = 7 / 10, mad_threshold = 8, combine_thresholds = True\<rparr>"
      Float32 Float32]
    pair_lines_example[unfolded four_unary]
  by (simp add: Let_def enumerate_eq_zip upt_rec)

subsection \<open>Properties of the transforms\<close>

lemma search_regular_ge: "m \<le> search_regular fuel m"
  by (induction fuel arbitrary: m) (auto simp: Suc_leD)

lemma next_fast_len_ge: "n \<le> next_fast_len n"
  by (simp add: next_fast_len_def search_regular_ge)

text \<open>
  The correlation that the reversed template spectrum gives. Reversing a spectrum of
  length \<open>L\<close> maps bin \<open>k\<close> to bin \<open>L - 1 - k\<close>, one bin off the conjugate spectrum, so the
  template enters the correlation multiplied by \<open>cos(2\<pi>n/L)\<close>: the result depends on
  the transform length.
\<close>

lemma cis_eq_one_dvd:
  fixes q :: int and L :: nat
  assumes "0 < L"
  shows "cis (2 * pi * real_of_int q / real L) = 1 \<longleftrightarrow> int L dvd q"
proof
  assume "int L dvd q"
  then obtain c where "q = int L * c" ..
  then have "2 * pi * real_of_int q / real L = 2 * pi * real_of_int c"
    using assms by simp
  then show "cis (2 * pi * real_of_int q / real L) = 1" by simp
next
  assume "cis (2 * pi * real_of_int q / real L) = 1"
  then have "cos (2 * pi * real_of_int q / real L) = 1"
    by (simp add: complex_eq_iff)
  then obtain n :: int where n: "2 * pi * real_of_int q / real L = real_of_int n * 2 * pi"
    using cos_one_2pi_int by blast
  then have "(2 * pi) * (real_of_int q / real L) = (2 * pi) * real_of_int n"
    by (simp add: mult.commute mult.left_commute)
  then have "real_of_int q / real L = real_of_int n"
    by (subst (asm) mult_cancel_left) simp
  then have "real_of_int q = real_of_int (n * int L)" using assms by (simp add: field_simps)
  then have "q = n * int L" by (simp only: of_int_eq_iff)
  then show "int L dvd q" by simp
qed

lemma roots_of_unity_sum:
  fixes q :: int and L :: nat
  assumes "0 < L"
  shows "(\<Sum>j<L. cis (2 * pi * real j * real_of_int q / real L))
           = (if int L dvd q then of_nat L else 0)"
proof -
  let ?w = "cis (2 * pi * real_of_int q / real L)"
  have p: "cis (2 * pi * real j * real_of_int q / real L) = ?w ^ j" for j
    by (simp add: DeMoivre algebra_simps)
  have wL: "?w ^ L = 1"
  proof -
    have "?w ^ L = cis (2 * pi * real_of_int q)" using assms by (simp add: DeMoivre)
    then show ?thesis by simp
  qed
  have "(\<Sum>j<L. ?w ^ j) = (if ?w = 1 then of_nat L else (1 - ?w ^ L) / (1 - ?w))"
    by (rule sum_gp_strict)
  with wL cis_eq_one_dvd[OF assms, of q] p show ?thesis by simp
qed


lemma dvd_shift_iff:
  fixes n k m L :: nat
  assumes "0 < L" and "m < L"
  shows "int L dvd (int n + int k - int m) \<longleftrightarrow> m = (n + k) mod L"
proof -
  have "int L dvd (int n + int k - int m)
          \<longleftrightarrow> (int n + int k) mod int L = int m mod int L"
    by (simp only: mod_eq_dvd_iff)
  also have "int m mod int L = int m" using assms by simp
  also have "(int n + int k) mod int L = int ((n + k) mod L)" by (simp add: zmod_int)
  finally show ?thesis by (simp only: of_nat_eq_iff) (rule eq_commute)
qed

lemma phase_sum:
  fixes n m k j L :: nat
  shows "cis (2 * pi * real n * real j / real L) * cis (- (2 * pi * real m * real j / real L))
               * cis (2 * pi * real k * real j / real L)
           = cis (2 * pi * real j * real_of_int (int n + int k - int m) / real L)"
proof -
  have num: "2 * pi * real n * real j - 2 * pi * real m * real j + 2 * pi * real k * real j
           = 2 * pi * real j * real_of_int (int n + int k - int m)"
    by (simp add: algebra_simps)
  have "2 * pi * real n * real j / real L + - (2 * pi * real m * real j / real L)
              + 2 * pi * real k * real j / real L
      = (2 * pi * real n * real j - 2 * pi * real m * real j + 2 * pi * real k * real j) / real L"
    by (simp add: add_divide_distrib diff_divide_distrib)
  then have "2 * pi * real n * real j / real L + - (2 * pi * real m * real j / real L)
              + 2 * pi * real k * real j / real L
            = 2 * pi * real j * real_of_int (int n + int k - int m) / real L"
    by (simp only: num)
  then show ?thesis by (simp only: cis_mult)
qed

lemma twiddle_rev:
  fixes n j L :: nat
  assumes "0 < L" and "j < L"
  shows "cis (- (2 * pi * real n * real (L - 1 - j) / real L))
        = cis (2 * pi * real n / real L) * cis (2 * pi * real n * real j / real L)"
proof -
  have r: "real (L - 1 - j) = real L - 1 - real j" using assms by (simp add: of_nat_diff)
  have "2 * pi * real n * (real L - 1 - real j) / real L
      = 2 * pi * real n - (2 * pi * real n / real L + 2 * pi * real n * real j / real L)"
    using assms by (simp add: field_simps)
  then have "- (2 * pi * real n * real (L - 1 - j) / real L)
          = (2 * pi * real n / real L + 2 * pi * real n * real j / real L) - 2 * pi * real n"
    unfolding r by linarith
  then have "cis (- (2 * pi * real n * real (L - 1 - j) / real L))
          = cis (2 * pi * real n / real L + 2 * pi * real n * real j / real L)
              / cis (2 * pi * real n)"
    by (simp only: cis_divide)
  moreover have "cis (2 * pi * real n) = 1" by simp
  ultimately show ?thesis by (simp add: cis_mult)
qed


lemma np_fft_nth:
  assumes "j < L"
  shows "np_fft x L ! j
           = (\<Sum>n<L. of_real (sample_at x L n) * cis (- (2 * pi * real n * real j / real L)))"
  using assms by (simp add: np_fft_def)

lemma length_np_fft: "length (np_fft x L) = L"
  by (simp add: np_fft_def)

lemma product_term:
  fixes tn dm :: "nat \<Rightarrow> complex"
  assumes "0 < L" and "j < L"
  shows "(\<Sum>n<L. tn n * cis (- (2 * pi * real n * real (L - 1 - j) / real L)))
           * (\<Sum>m<L. dm m * cis (- (2 * pi * real m * real j / real L)))
           * cis (2 * pi * real k * real j / real L)
       = (\<Sum>n<L. \<Sum>m<L. tn n * cis (2 * pi * real n / real L) * dm m
           * cis (2 * pi * real j * real_of_int (int n + int k - int m) / real L))"
proof -
  have pt: "tn n * cis (- (2 * pi * real n * real (L - 1 - j) / real L))
             * (dm m * cis (- (2 * pi * real m * real j / real L)))
             * cis (2 * pi * real k * real j / real L)
          = tn n * cis (2 * pi * real n / real L) * dm m
             * cis (2 * pi * real j * real_of_int (int n + int k - int m) / real L)" for n m
  proof -
    have "tn n * cis (- (2 * pi * real n * real (L - 1 - j) / real L))
             * (dm m * cis (- (2 * pi * real m * real j / real L)))
             * cis (2 * pi * real k * real j / real L)
        = tn n * cis (2 * pi * real n / real L) * dm m
             * (cis (2 * pi * real n * real j / real L)
                 * cis (- (2 * pi * real m * real j / real L))
                 * cis (2 * pi * real k * real j / real L))"
      unfolding twiddle_rev[OF assms] by (simp add: mult_ac)
    then show ?thesis by (simp only: phase_sum)
  qed
  have "(\<Sum>n<L. tn n * cis (- (2 * pi * real n * real (L - 1 - j) / real L)))
           * (\<Sum>m<L. dm m * cis (- (2 * pi * real m * real j / real L)))
           * cis (2 * pi * real k * real j / real L)
      = (\<Sum>n<L. \<Sum>m<L. tn n * cis (- (2 * pi * real n * real (L - 1 - j) / real L))
             * (dm m * cis (- (2 * pi * real m * real j / real L)))
             * cis (2 * pi * real k * real j / real L))"
    by (subst sum_product) (simp only: sum_distrib_right)
  then show ?thesis by (simp only: pt)
qed


lemma select_shift:
  fixes c :: "nat \<Rightarrow> nat \<Rightarrow> complex"
  assumes "0 < L"
  shows "(\<Sum>m<L. c n m * (if int L dvd (int n + int k - int m) then of_nat L else 0))
           = c n ((n + k) mod L) * of_nat L"
proof -
  have "(\<Sum>m<L. c n m * (if int L dvd (int n + int k - int m) then of_nat L else 0))
      = (\<Sum>m<L. if m = (n + k) mod L then c n m * of_nat L else 0)"
  proof (rule sum.cong[OF refl])
    fix m assume "m \<in> {..<L}"
    then have "m < L" by simp
    from dvd_shift_iff[OF assms this, of n k]
    show "c n m * (if int L dvd (int n + int k - int m) then of_nat L else 0)
            = (if m = (n + k) mod L then c n m * of_nat L else 0)"
      by simp
  qed
  also have "\<dots> = c n ((n + k) mod L) * of_nat L"
    using assms by (simp add: sum.delta)
  finally show ?thesis .
qed

lemma correlation_sum:
  fixes tn dm :: "nat \<Rightarrow> complex"
  assumes L: "0 < L"
  shows "(\<Sum>j<L. (\<Sum>n<L. tn n * cis (- (2 * pi * real n * real (L - 1 - j) / real L)))
           * (\<Sum>m<L. dm m * cis (- (2 * pi * real m * real j / real L)))
           * cis (2 * pi * real k * real j / real L))
       = (\<Sum>n<L. tn n * cis (2 * pi * real n / real L) * dm ((n + k) mod L)) * of_nat L"
proof -
  let ?c = "\<lambda>n m. tn n * cis (2 * pi * real n / real L) * dm m"
  let ?w = "\<lambda>n m j. cis (2 * pi * real j * real_of_int (int n + int k - int m) / real L)"
  have "(\<Sum>j<L. (\<Sum>n<L. tn n * cis (- (2 * pi * real n * real (L - 1 - j) / real L)))
           * (\<Sum>m<L. dm m * cis (- (2 * pi * real m * real j / real L)))
           * cis (2 * pi * real k * real j / real L))
      = (\<Sum>j<L. \<Sum>n<L. \<Sum>m<L. ?c n m * ?w n m j)"
    by (rule sum.cong[OF refl]) (simp only: lessThan_iff product_term[OF L])
  also have "\<dots> = (\<Sum>n<L. \<Sum>j<L. \<Sum>m<L. ?c n m * ?w n m j)"
    by (rule sum.swap)
  also have "\<dots> = (\<Sum>n<L. \<Sum>m<L. \<Sum>j<L. ?c n m * ?w n m j)"
    by (rule sum.cong[OF refl]) (rule sum.swap)
  also have "\<dots> = (\<Sum>n<L. \<Sum>m<L. ?c n m * (\<Sum>j<L. ?w n m j))"
    by (simp only: sum_distrib_left)
  also have "\<dots> = (\<Sum>n<L. \<Sum>m<L. ?c n m
                       * (if int L dvd (int n + int k - int m) then of_nat L else 0))"
    by (simp only: roots_of_unity_sum[OF L])
  also have "\<dots> = (\<Sum>n<L. ?c n ((n + k) mod L) * of_nat L)"
    by (simp only: select_shift[OF L, of ?c])
  also have "\<dots> = (\<Sum>n<L. ?c n ((n + k) mod L)) * of_nat L"
    by (simp only: sum_distrib_right)
  finally show ?thesis .
qed


lemma spectral_cc_closed:
  assumes L: "0 < L" and k: "k < L"
  shows "spectral_cc L t d k =
           (\<Sum>n<L. sample_at t L n * cos (2 * pi * real n / real L)
                      * sample_at d L ((n + k) mod L))"
proof -
  define tn :: "nat \<Rightarrow> complex" where "tn n = of_real (sample_at t L n)" for n
  define dm :: "nat \<Rightarrow> complex" where "dm m = of_real (sample_at d L m)" for m
  define cc where "cc = map (\<lambda>(a, b). a * b) (zip (rev (np_fft t L)) (np_fft d L))"
  have lencc: "length cc = L" by (simp add: cc_def length_np_fft)
  have ccj: "cc ! j = (\<Sum>n<L. tn n * cis (- (2 * pi * real n * real (L - 1 - j) / real L)))
                       * (\<Sum>m<L. dm m * cis (- (2 * pi * real m * real j / real L)))"
    if j: "j < L" for j
  proof -
    have lj: "L - Suc j < L" using j by simp
    have "rev (np_fft t L) ! j = np_fft t L ! (L - Suc j)"
      using j by (simp add: rev_nth length_np_fft)
    also have "\<dots> = (\<Sum>n<L. tn n * cis (- (2 * pi * real n * real (L - Suc j) / real L)))"
      unfolding tn_def by (rule np_fft_nth[OF lj])
    finally have a: "rev (np_fft t L) ! j
        = (\<Sum>n<L. tn n * cis (- (2 * pi * real n * real (L - 1 - j) / real L)))"
      by simp
    have b: "np_fft d L ! j = (\<Sum>m<L. dm m * cis (- (2 * pi * real m * real j / real L)))"
      unfolding dm_def by (rule np_fft_nth[OF j])
    have "cc ! j = rev (np_fft t L) ! j * np_fft d L ! j"
      using j by (simp add: cc_def length_np_fft)
    then show ?thesis by (simp only: a b)
  qed
  have "np_ifft cc ! k
      = (\<Sum>j<L. cc ! j * cis (2 * pi * real k * real j / real L)) / of_nat L"
    using k by (simp add: np_ifft_def lencc)
  also have "(\<Sum>j<L. cc ! j * cis (2 * pi * real k * real j / real L))
      = (\<Sum>j<L. (\<Sum>n<L. tn n * cis (- (2 * pi * real n * real (L - 1 - j) / real L)))
           * (\<Sum>m<L. dm m * cis (- (2 * pi * real m * real j / real L)))
           * cis (2 * pi * real k * real j / real L))"
    by (rule sum.cong[OF refl]) (simp only: lessThan_iff ccj)
  also have "\<dots> = (\<Sum>n<L. tn n * cis (2 * pi * real n / real L) * dm ((n + k) mod L)) * of_nat L"
    by (rule correlation_sum[OF L])
  finally have "np_ifft cc ! k
      = (\<Sum>n<L. tn n * cis (2 * pi * real n / real L) * dm ((n + k) mod L))"
    using L by simp
  then have "Re (np_ifft cc ! k)
      = (\<Sum>n<L. sample_at t L n * cos (2 * pi * real n / real L) * sample_at d L ((n + k) mod L))"
    by (simp add: tn_def dm_def)
  then show ?thesis by (simp add: spectral_cc_def cc_def Let_def)
qed

subsection \<open>The orchestrator on the run with one allocation failure\<close>

lemma sum_upto_4: "(\<Sum>n<(4::nat). f n) = f 0 + f 1 + f 2 + (f 3 :: real)"
  by (simp add: eval_nat_numeral)

lemma sum_upto_6: "(\<Sum>n<(6::nat). f n) = f 0 + f 1 + f 2 + f 3 + f 4 + (f 5 :: real)"
  by (simp add: eval_nat_numeral)

lemma sample_at_zeros: "sample_at (replicate n 0) L m = 0"
  by (simp add: sample_at_def)

lemma spectral_cc_zero:
  assumes "0 < L" and "k < L"
  shows "spectral_cc L t (replicate n 0) k = 0"
  using assms by (simp add: spectral_cc_closed sample_at_zeros)

lemma cos_quarter: "cos (2 * pi * real 1 / real 4) = 0"
proof -
  have "2 * pi * real 1 / real 4 = pi / 2" by simp
  then show ?thesis by (simp only: cos_pi_half)
qed

lemma cos_sixth: "cos (2 * pi * real 1 / real 6) = 1 / 2"
proof -
  have "2 * pi * real 1 / real 6 = pi / 3" by simp
  then show ?thesis by (simp only: cos_60)
qed

lemma spectral_cc_len4_0: "spectral_cc 4 [1, 1] [1, 1, 1, 1] 0 = 1"
proof -
  have "spectral_cc 4 [1, 1] [1, 1, 1, 1] 0 =
      (\<Sum>n<4. sample_at [1, 1] 4 n * cos (2 * pi * real n / real 4)
                      * sample_at [1, 1, 1, 1] 4 ((n + 0) mod 4))"
    by (rule spectral_cc_closed) simp_all
  also have "\<dots> = 1"
    unfolding sum_upto_4 using cos_quarter by (simp add: sample_at_def)
  finally show ?thesis .
qed


lemma spectral_cc_len4_1: "spectral_cc 4 [1, 1] [1, 1, 1, 1] 1 = 1"
proof -
  have "spectral_cc 4 [1, 1] [1, 1, 1, 1] 1 =
      (\<Sum>n<4. sample_at [1, 1] 4 n * cos (2 * pi * real n / real 4)
                      * sample_at [1, 1, 1, 1] 4 ((n + 1) mod 4))"
    by (rule spectral_cc_closed) simp_all
  also have "\<dots> = 1"
    unfolding sum_upto_4 using cos_quarter by (simp add: sample_at_def)
  finally show ?thesis .
qed

lemma spectral_cc_len4_2: "spectral_cc 4 [1, 1] [1, 1, 1, 1] 2 = 1"
proof -
  have "spectral_cc 4 [1, 1] [1, 1, 1, 1] 2 =
      (\<Sum>n<4. sample_at [1, 1] 4 n * cos (2 * pi * real n / real 4)
                      * sample_at [1, 1, 1, 1] 4 ((n + 2) mod 4))"
    by (rule spectral_cc_closed) simp_all
  also have "\<dots> = 1"
    unfolding sum_upto_4 using cos_quarter by (simp add: sample_at_def)
  finally show ?thesis .
qed

lemma spectral_cc_len6_0: "spectral_cc 6 [1, 1] [1, 1, 1, 1] 0 = 3 / 2"
proof -
  have "spectral_cc 6 [1, 1] [1, 1, 1, 1] 0 =
      (\<Sum>n<6. sample_at [1, 1] 6 n * cos (2 * pi * real n / real 6)
                      * sample_at [1, 1, 1, 1] 6 ((n + 0) mod 6))"
    by (rule spectral_cc_closed) simp_all
  also have "\<dots> = 3 / 2"
    unfolding sum_upto_6 using cos_sixth by (simp add: sample_at_def)
  finally show ?thesis .
qed

lemma spectral_cc_len6_1: "spectral_cc 6 [1, 1] [1, 1, 1, 1] 1 = 3 / 2"
proof -
  have "spectral_cc 6 [1, 1] [1, 1, 1, 1] 1 =
      (\<Sum>n<6. sample_at [1, 1] 6 n * cos (2 * pi * real n / real 6)
                      * sample_at [1, 1, 1, 1] 6 ((n + 1) mod 6))"
    by (rule spectral_cc_closed) simp_all
  also have "\<dots> = 3 / 2"
    unfolding sum_upto_6 using cos_sixth by (simp add: sample_at_def)
  finally show ?thesis .
qed

lemma spectral_cc_len6_2: "spectral_cc 6 [1, 1] [1, 1, 1, 1] 2 = 3 / 2"
proof -
  have "spectral_cc 6 [1, 1] [1, 1, 1, 1] 2 =
      (\<Sum>n<6. sample_at [1, 1] 6 n * cos (2 * pi * real n / real 6)
                      * sample_at [1, 1, 1, 1] 6 ((n + 2) mod 6))"
    by (rule spectral_cc_closed) simp_all
  also have "\<dots> = 3 / 2"
    unfolding sum_upto_6 using cos_sixth by (simp add: sample_at_def)
  finally show ?thesis .
qed


lemma floor32_small: "\<not> (2 \<le> sqrt (finfo_eps Float32 * real 2))"
proof -
  have "sqrt (1 / 2 ^ 23 * 2) < 2" by (rule real_less_lsqrt) (simp_all add: power2_eq_square)
  then show ?thesis by simp
qed

lemma normalize_window2:
  "normalize_cc Float32 Float32 2 [2, 2, 2] [1, 1] [c, c, c] = Inr [Fin (c / 2), Fin (c / 2), Fin (c / 2)]"
  using floor32_small by (simp add: normalize_cc_def fdiv_def del: finfo_eps.simps)

lemma normalize_silent:
  "normalize_cc Float32 Float32 2 [0, 0, 0, 0, 0] [1, 1] [0, 0, 0, 0, 0]
     = Inr [Fin 0, Fin 0, Fin 0, Fin 0, Fin 0]"
  by (simp add: normalize_cc_def)

lemma data_norm_ones: "data_norm [1, 1, 1, 1] 2 = Inr [2, 2, 2]"
  by (simp add: data_norm_def pad_zeros_def window_sum_def convolve_valid_def upt_rec
        numeral_2_eq_2)

lemma data_norm_silent: "data_norm [0, 0, 0, 0, 0, 0] 2 = Inr [0, 0, 0, 0, 0]"
  by (simp add: data_norm_def pad_zeros_def window_sum_def convolve_valid_def upt_rec
        numeral_2_eq_2)

lemma find_peaks_half:
  "find_peaks \<lparr>cc_threshold = 7 / 10, mad_threshold = 8, combine_thresholds = True\<rparr>
     [1 / 2, 1 / 2, 1 / 2] 2 = ([], [], [])"
  by code_simp

lemma find_peaks_three_quarters:
  "find_peaks \<lparr>cc_threshold = 7 / 10, mad_threshold = 8, combine_thresholds = True\<rparr>
     [3 / 4, 3 / 4, 3 / 4] 2 = ([0], [3 / 4], [Fin 750000])"
  by code_simp

lemma find_peaks_silent:
  "find_peaks \<lparr>cc_threshold = 7 / 10, mad_threshold = 8, combine_thresholds = True\<rparr>
     [0, 0, 0, 0, 0] 2 = ([], [], [])"
  by code_simp


lemma nfl_values: "next_fast_len 4 = 4" "next_fast_len 6 = 6"
  by code_simp+

lemma pair_ones_none:
  assumes "tr_samples d = [1, 1, 1, 1]"
    and "tr_ifft d 0 0 = c" and "tr_ifft d 0 1 = c" and "tr_ifft d 0 2 = c"
    and "3 \<le> L" and "\<bar>c / 2\<bar> \<le> 101 / 100"
    and "find_peaks cfg [c / 2, c / 2, c / 2] 2 = ([], [], [])"
  shows "pair_matches cfg Float32 Float32 L 2 d [2, 2, 2]
           (0, \<lparr>tp_file = ''t1'', tp_samples = [1, 1]\<rparr>) = Inr []"
proof -
  have raw: "map (tr_ifft d 0) [0..<min L (length (tr_samples d) - 2 + 1)] = [c, c, c]"
    using assms(1-5) by (simp add: upt_rec min_def numeral_2_eq_2)
  have sc: "snd (cc_safety_check [Fin (c / 2), Fin (c / 2), Fin (c / 2)])
              = [Fin (c / 2), Fin (c / 2), Fin (c / 2)]"
    using assms(6) by (simp add: cc_safety_check_def)
  have fv: "finite_values [Fin (c / 2), Fin (c / 2), Fin (c / 2)] = Some [c / 2, c / 2, c / 2]"
    by (simp add: finite_values_def)
  show ?thesis
    unfolding pair_matches_def Let_def prod.case raw
    by (simp add: np_max_def normalize_window2 sc fv assms(7))
qed

lemma pair_ones_hit:
  assumes "tr_samples d = [1, 1, 1, 1]"
    and "tr_ifft d 0 0 = c" and "tr_ifft d 0 1 = c" and "tr_ifft d 0 2 = c"
    and "3 \<le> L" and "\<bar>c / 2\<bar> \<le> 101 / 100"
    and "find_peaks cfg [c / 2, c / 2, c / 2] 2 = ([0], [v], [m])"
  shows "pair_matches cfg Float32 Float32 L 2 d [2, 2, 2]
           (0, \<lparr>tp_file = ''t1'', tp_samples = [1, 1]\<rparr>)
         = Inr [\<lparr>det_file = ''t1'', det_start = tr_start d, det_lag = 0, det_cc = Fin v,
                 det_mad = m, det_amp = Fin 1\<rparr>]"
proof -
  have raw: "map (tr_ifft d 0) [0..<min L (length (tr_samples d) - 2 + 1)] = [c, c, c]"
    using assms(1-5) by (simp add: upt_rec min_def numeral_2_eq_2)
  have sc: "snd (cc_safety_check [Fin (c / 2), Fin (c / 2), Fin (c / 2)])
              = [Fin (c / 2), Fin (c / 2), Fin (c / 2)]"
    using assms(6) by (simp add: cc_safety_check_def)
  have fv: "finite_values [Fin (c / 2), Fin (c / 2), Fin (c / 2)] = Some [c / 2, c / 2, c / 2]"
    by (simp add: finite_values_def)
  have am: "amp_ratios (map abs (tr_samples d)) 2 1 [0] = Inr [Fin 1]"
    using assms(1) by (simp add: np_max_def fdiv_def)
  show ?thesis
    unfolding pair_matches_def Let_def prod.case raw
    by (simp add: np_max_def normalize_window2 sc fv assms(7) am process_matches_def
          del: amp_ratios.simps)
qed

lemma pair_silent:
  assumes "tr_samples d = [0, 0, 0, 0, 0, 0]"
    and "\<And>k. k < 5 \<Longrightarrow> tr_ifft d 0 k = 0" and "5 \<le> L"
  shows "pair_matches \<lparr>cc_threshold = 7 / 10, mad_threshold = 8, combine_thresholds = True\<rparr>
           Float32 Float32 L 2 d [0, 0, 0, 0, 0]
           (0, \<lparr>tp_file = ''t1'', tp_samples = [1, 1]\<rparr>) = Inr []"
proof -
  have raw: "map (tr_ifft d 0) [0..<min L (length (tr_samples d) - 2 + 1)] = [0, 0, 0, 0, 0]"
    using assms by (simp add: upt_rec min_def eval_nat_numeral)
  have sc: "snd (cc_safety_check [Fin 0, Fin 0, Fin 0, Fin 0, Fin 0])
              = [Fin 0, Fin 0, Fin 0, Fin 0, Fin 0]"
    by (simp add: cc_safety_check_def)
  have fv: "finite_values [Fin 0, Fin 0, Fin 0, Fin 0, Fin 0] = Some [0, 0, 0, 0, 0]"
    by (simp add: finite_values_def)
  show ?thesis
    unfolding pair_matches_def Let_def prod.case raw
    by (simp add: np_max_def normalize_silent sc fv find_peaks_silent)
qed

lemma compute_short_fft:
  assumes "st_cc_len st = 4"
  shows "compute retry_env st [\<lparr>tp_file = ''t1'', tp_samples = [1, 1]\<rparr>] [([1, 1, 1, 1], 0)]
           = ([], Inr 0)"
proof -
  let ?cfg = "\<lparr>cc_threshold = 7 / 10, mad_threshold = 8, combine_thresholds = True\<rparr>"
  let ?tp = "\<lparr>tp_file = ''t1'', tp_samples = [1, 1]\<rparr>"
  let ?d = "\<lparr>tr_samples = [1, 1, 1, 1], tr_start = 0,
             tr_ifft = (\<lambda>i k. spectral_cc 4 (tp_samples ([?tp] ! i)) [1, 1, 1, 1] k)\<rparr>"
  have pm: "pair_matches ?cfg Float32 Float32 4 2 ?d [2, 2, 2] (0, ?tp) = Inr []"
    by (rule pair_ones_none[where c = 1])
       (simp_all add: spectral_cc_len4_0 spectral_cc_len4_1[unfolded One_nat_def]
          spectral_cc_len4_2 find_peaks_half)
  have tm: "trace_matches ?cfg Float32 Float32 4 2 [?tp] ?d = ([], None)"
    using pm by (simp add: trace_matches_def data_norm_ones enumerate_eq_zip)
  have len: "map (\<lambda>tr. length (tr_samples tr)) [?d] = [4]" by simp
  have "matrix_cc ?cfg Float32 Float32 next_fast_len 2 [?tp] [?d] = ([], Inr 0)"
    unfolding matrix_cc_def Let_def len using tm by (simp add: nfl_values)
  from this[unfolded numeral_2_eq_2] show ?thesis
    using assms by (simp add: compute_def retry_env_def)
qed


lemma trace_silent:
  "trace_matches \<lparr>cc_threshold = 7 / 10, mad_threshold = 8, combine_thresholds = True\<rparr>
     Float32 Float32 6 2 [\<lparr>tp_file = ''t1'', tp_samples = [1, 1]\<rparr>]
     \<lparr>tr_samples = [0, 0, 0, 0, 0, 0], tr_start = 86400,
       tr_ifft = (\<lambda>i k. spectral_cc 6
                    (tp_samples ([\<lparr>tp_file = ''t1'', tp_samples = [1, 1]\<rparr>] ! i))
                    [0, 0, 0, 0, 0, 0] k)\<rparr>
   = ([], None)"
proof -
  let ?cfg = "\<lparr>cc_threshold = 7 / 10, mad_threshold = 8, combine_thresholds = True\<rparr>"
  let ?tp = "\<lparr>tp_file = ''t1'', tp_samples = [1, 1]\<rparr>"
  let ?d = "\<lparr>tr_samples = [0, 0, 0, 0, 0, 0], tr_start = 86400,
             tr_ifft = (\<lambda>i k. spectral_cc 6 (tp_samples ([?tp] ! i)) [0, 0, 0, 0, 0, 0] k)\<rparr>"
  have z: "[0, 0, 0, 0, 0, 0 :: real] = replicate 6 0" by (simp add: eval_nat_numeral)
  have pm: "pair_matches ?cfg Float32 Float32 6 2 ?d [0, 0, 0, 0, 0] (0, ?tp) = Inr []"
  proof (rule pair_silent)
    show "tr_samples ?d = [0, 0, 0, 0, 0, 0]" by simp
    show "tr_ifft ?d 0 k = 0" if "k < 5" for k
      using that unfolding z by (simp add: spectral_cc_zero)
    show "(5::nat) \<le> 6" by simp
  qed
  show ?thesis
    using pm by (simp add: trace_matches_def data_norm_silent enumerate_eq_zip)
qed

lemma trace_long_fft:
  "trace_matches \<lparr>cc_threshold = 7 / 10, mad_threshold = 8, combine_thresholds = True\<rparr>
     Float32 Float32 6 2 [\<lparr>tp_file = ''t1'', tp_samples = [1, 1]\<rparr>]
     \<lparr>tr_samples = [1, 1, 1, 1], tr_start = 0,
       tr_ifft = (\<lambda>i k. spectral_cc 6
                    (tp_samples ([\<lparr>tp_file = ''t1'', tp_samples = [1, 1]\<rparr>] ! i))
                    [1, 1, 1, 1] k)\<rparr>
   = ([\<lparr>det_file = ''t1'', det_start = 0, det_lag = 0, det_cc = Fin (3 / 4),
        det_mad = Fin 750000, det_amp = Fin 1\<rparr>], None)"
proof -
  let ?cfg = "\<lparr>cc_threshold = 7 / 10, mad_threshold = 8, combine_thresholds = True\<rparr>"
  let ?tp = "\<lparr>tp_file = ''t1'', tp_samples = [1, 1]\<rparr>"
  let ?d = "\<lparr>tr_samples = [1, 1, 1, 1], tr_start = 0,
             tr_ifft = (\<lambda>i k. spectral_cc 6 (tp_samples ([?tp] ! i)) [1, 1, 1, 1] k)\<rparr>"
  have pm: "pair_matches ?cfg Float32 Float32 6 2 ?d [2, 2, 2] (0, ?tp)
      = Inr [\<lparr>det_file = ''t1'', det_start = tr_start ?d, det_lag = 0, det_cc = Fin (3 / 4),
              det_mad = Fin 750000, det_amp = Fin 1\<rparr>]"
    by (rule pair_ones_hit[where c = "3 / 2"])
       (simp_all add: spectral_cc_len6_0 spectral_cc_len6_1[unfolded One_nat_def]
          spectral_cc_len6_2 find_peaks_three_quarters)
  show ?thesis
    using pm by (simp add: trace_matches_def data_norm_ones enumerate_eq_zip)
qed

lemma compute_silent:
  assumes "st_cc_len st = 6"
  shows "compute retry_env st [\<lparr>tp_file = ''t1'', tp_samples = [1, 1]\<rparr>]
           [([0, 0, 0, 0, 0, 0], 86400)] = ([], Inr 0)"
proof -
  let ?cfg = "\<lparr>cc_threshold = 7 / 10, mad_threshold = 8, combine_thresholds = True\<rparr>"
  let ?tp = "\<lparr>tp_file = ''t1'', tp_samples = [1, 1]\<rparr>"
  let ?d = "\<lparr>tr_samples = [0, 0, 0, 0, 0, 0], tr_start = 86400,
             tr_ifft = (\<lambda>i k. spectral_cc 6 (tp_samples ([?tp] ! i)) [0, 0, 0, 0, 0, 0] k)\<rparr>"
  have len: "map (\<lambda>tr. length (tr_samples tr)) [?d] = [6]" by simp
  have "matrix_cc ?cfg Float32 Float32 next_fast_len 2 [?tp] [?d] = ([], Inr 0)"
    unfolding matrix_cc_def Let_def len using trace_silent by (simp add: nfl_values)
  from this[unfolded numeral_2_eq_2] show ?thesis
    using assms by (simp add: compute_def retry_env_def)
qed

lemma compute_long_fft:
  assumes "st_cc_len st = 6"
  shows "compute retry_env st [\<lparr>tp_file = ''t1'', tp_samples = [1, 1]\<rparr>]
           [([1, 1, 1, 1], 0), ([0, 0, 0, 0, 0, 0], 86400)]
         = ([\<lparr>det_file = ''t1'', det_start = 0, det_lag = 0, det_cc = Fin (3 / 4),
              det_mad = Fin 750000, det_amp = Fin 1\<rparr>], Inr 1)"
proof -
  let ?cfg = "\<lparr>cc_threshold = 7 / 10, mad_threshold = 8, combine_thresholds = True\<rparr>"
  let ?tp = "\<lparr>tp_file = ''t1'', tp_samples = [1, 1]\<rparr>"
  let ?a = "\<lparr>tr_samples = [1, 1, 1, 1], tr_start = 0,
             tr_ifft = (\<lambda>i k. spectral_cc 6 (tp_samples ([?tp] ! i)) [1, 1, 1, 1] k)\<rparr>"
  let ?b = "\<lparr>tr_samples = [0, 0, 0, 0, 0, 0], tr_start = 86400,
             tr_ifft = (\<lambda>i k. spectral_cc 6 (tp_samples ([?tp] ! i)) [0, 0, 0, 0, 0, 0] k)\<rparr>"
  have len: "map (\<lambda>tr. length (tr_samples tr)) [?a, ?b] = [4, 6]" by simp
  have "matrix_cc ?cfg Float32 Float32 next_fast_len 2 [?tp] [?a, ?b]
      = ([\<lparr>det_file = ''t1'', det_start = 0, det_lag = 0, det_cc = Fin (3 / 4),
            det_mad = Fin 750000, det_amp = Fin 1\<rparr>], Inr 1)"
    unfolding matrix_cc_def Let_def len using trace_long_fft trace_silent
    by (simp add: nfl_values)
  from this[unfolded numeral_2_eq_2] show ?thesis
    using assms by (simp add: compute_def retry_env_def)
qed


lemma nfl_unary:
  "next_fast_len (Suc (Suc (Suc (Suc 0)))) = 4"
  "next_fast_len (Suc (Suc (Suc (Suc (Suc (Suc 0)))))) = 6"
  using nfl_values by (simp_all add: eval_nat_numeral)

lemma orch_loop_numeral:
  "orch_loop (numeral n) e oom st = orch_loop (Suc (pred_numeral n)) e oom st"
  by (simp add: numeral_eq_Suc)

lemma chunk_sizes:
  "find_optimal_chunksize 2 2 = Inr 2" "find_optimal_chunksize 1 2 = Inr 1"
  by (simp_all add: find_optimal_chunksize_def quot_round_up_pos)

lemma capacity_share_two: "float_quot 4 1 = (2 ^ 52, 50)"
  by code_simp

lemma pass_computes:
  assumes "load_data e st = st1" and "st_data_st st1 = Bound (Some data_st)"
    and "load_templates e st1 = st2" and "st_temp_st st2 = Bound temp_st"
    and "oom = [] \<or> \<not> hd oom"
    and "compute e st2 temp_st data_st = (out, Inr n)"
  shows "orch_loop (Suc fuel) e oom st =
           (case advance e (st2\<lparr>st_matches := st_matches st2 @ out,
                                 st_n_detections := st_n_detections st2 + n\<rparr>) of
              None \<Rightarrow> Some (st2\<lparr>st_matches := st_matches st2 @ out,
                                 st_n_detections := st_n_detections st2 + n\<rparr>, Returned)
            | Some st' \<Rightarrow> orch_loop fuel e (tl oom) st')"
  using assms by (auto simp: Let_def)

lemma pass_recovers:
  assumes "load_data e st = st1" and "st_data_st st1 = Bound (Some data_st)"
    and "load_templates e st1 = st2" and "st_temp_st st2 = Bound temp_st"
    and "oom = True # rest" and "e_use_cupy e"
  shows "orch_loop (Suc fuel) e oom st =
           (case recover e st2 of
              Inl out \<Rightarrow> Some (st2, out)
            | Inr st' \<Rightarrow> orch_loop fuel e rest st')"
  using assms by (simp add: Let_def split: sum.split)

lemma retry_files:
  "e_all_data retry_env = [\<lparr>df_name = ''A'', df_trace = Some ([1, 1, 1, 1], 0)\<rparr>, \<lparr>df_name = ''B'', df_trace = Some ([0, 0, 0, 0, 0, 0], 86400)\<rparr>]"
  "e_all_templates retry_env = [\<lparr>tp_file = ''t1'', tp_samples = [1, 1]\<rparr>]"
  "e_nfl retry_env = next_fast_len" "e_use_cupy retry_env"
  by (simp_all add: retry_env_def)

lemma run_plain:
  "orch_loop (Suc fuel) retry_env []
     \<lparr>st_di = 0, st_ti = 0, st_N_MAX = 2, st_data = [], st_templates = [],
        st_cc_len = 0, st_data_st = Unbound, st_temp_st = Unbound,
        st_n_detections = 0, st_matches = []\<rparr>
   = Some (\<lparr>st_di = 0, st_ti = 0, st_N_MAX = 2, st_data = [\<lparr>df_name = ''A'', df_trace = Some ([1, 1, 1, 1], 0)\<rparr>, \<lparr>df_name = ''B'', df_trace = Some ([0, 0, 0, 0, 0, 0], 86400)\<rparr>], st_templates = [\<lparr>tp_file = ''t1'', tp_samples = [1, 1]\<rparr>],
        st_cc_len = 6, st_data_st = Bound (Some [([1, 1, 1, 1], 0), ([0, 0, 0, 0, 0, 0], 86400)]), st_temp_st = Bound [\<lparr>tp_file = ''t1'', tp_samples = [1, 1]\<rparr>],
        st_n_detections = 1, st_matches = [\<lparr>det_file = ''t1'', det_start = 0, det_lag = 0, det_cc = Fin (3 / 4), det_mad = Fin 750000, det_amp = Fin 1\<rparr>]\<rparr>, Returned)"
proof -
  have ld: "load_data retry_env
     \<lparr>st_di = 0, st_ti = 0, st_N_MAX = 2, st_data = [], st_templates = [],
        st_cc_len = 0, st_data_st = Unbound, st_temp_st = Unbound,
        st_n_detections = 0, st_matches = []\<rparr>
   = \<lparr>st_di = 0, st_ti = 0, st_N_MAX = 2, st_data = [\<lparr>df_name = ''A'', df_trace = Some ([1, 1, 1, 1], 0)\<rparr>, \<lparr>df_name = ''B'', df_trace = Some ([0, 0, 0, 0, 0, 0], 86400)\<rparr>], st_templates = [],
        st_cc_len = 6, st_data_st = Bound (Some [([1, 1, 1, 1], 0), ([0, 0, 0, 0, 0, 0], 86400)]), st_temp_st = Unbound,
        st_n_detections = 0, st_matches = []\<rparr>"
    by (simp add: load_data_def Let_def retry_files read_bulk_data_def List.map_filter_simps nfl_unary)
  have lt: "load_templates retry_env
     \<lparr>st_di = 0, st_ti = 0, st_N_MAX = 2, st_data = [\<lparr>df_name = ''A'', df_trace = Some ([1, 1, 1, 1], 0)\<rparr>, \<lparr>df_name = ''B'', df_trace = Some ([0, 0, 0, 0, 0, 0], 86400)\<rparr>], st_templates = [],
        st_cc_len = 6, st_data_st = Bound (Some [([1, 1, 1, 1], 0), ([0, 0, 0, 0, 0, 0], 86400)]), st_temp_st = Unbound,
        st_n_detections = 0, st_matches = []\<rparr>
   = \<lparr>st_di = 0, st_ti = 0, st_N_MAX = 2, st_data = [\<lparr>df_name = ''A'', df_trace = Some ([1, 1, 1, 1], 0)\<rparr>, \<lparr>df_name = ''B'', df_trace = Some ([0, 0, 0, 0, 0, 0], 86400)\<rparr>], st_templates = [\<lparr>tp_file = ''t1'', tp_samples = [1, 1]\<rparr>],
        st_cc_len = 6, st_data_st = Bound (Some [([1, 1, 1, 1], 0), ([0, 0, 0, 0, 0, 0], 86400)]), st_temp_st = Bound [\<lparr>tp_file = ''t1'', tp_samples = [1, 1]\<rparr>],
        st_n_detections = 0, st_matches = []\<rparr>"
    by (simp add: load_templates_def Let_def retry_files read_templates_def)
  have cp: "compute retry_env
     \<lparr>st_di = 0, st_ti = 0, st_N_MAX = 2, st_data = [\<lparr>df_name = ''A'', df_trace = Some ([1, 1, 1, 1], 0)\<rparr>, \<lparr>df_name = ''B'', df_trace = Some ([0, 0, 0, 0, 0, 0], 86400)\<rparr>], st_templates = [\<lparr>tp_file = ''t1'', tp_samples = [1, 1]\<rparr>],
        st_cc_len = 6, st_data_st = Bound (Some [([1, 1, 1, 1], 0), ([0, 0, 0, 0, 0, 0], 86400)]), st_temp_st = Bound [\<lparr>tp_file = ''t1'', tp_samples = [1, 1]\<rparr>],
        st_n_detections = 0, st_matches = []\<rparr>
     [\<lparr>tp_file = ''t1'', tp_samples = [1, 1]\<rparr>] [([1, 1, 1, 1], 0), ([0, 0, 0, 0, 0, 0], 86400)] = ([\<lparr>det_file = ''t1'', det_start = 0, det_lag = 0, det_cc = Fin (3 / 4), det_mad = Fin 750000, det_amp = Fin 1\<rparr>], Inr 1)"
    by (rule compute_long_fft) simp
  show ?thesis
    by (subst pass_computes[OF ld _ lt _ _ cp]) (simp_all add: advance_def retry_files)
qed

lemma run_fails_once:
  "orch_loop (Suc fuel) retry_env [True]
     \<lparr>st_di = 0, st_ti = 0, st_N_MAX = 2, st_data = [], st_templates = [],
        st_cc_len = 0, st_data_st = Unbound, st_temp_st = Unbound,
        st_n_detections = 0, st_matches = []\<rparr>
   = orch_loop fuel retry_env []
     \<lparr>st_di = 0, st_ti = 0, st_N_MAX = 1, st_data = [], st_templates = [],
        st_cc_len = 6, st_data_st = Unbound, st_temp_st = Unbound,
        st_n_detections = 0, st_matches = []\<rparr>"
proof -
  have ld: "load_data retry_env
     \<lparr>st_di = 0, st_ti = 0, st_N_MAX = 2, st_data = [], st_templates = [],
        st_cc_len = 0, st_data_st = Unbound, st_temp_st = Unbound,
        st_n_detections = 0, st_matches = []\<rparr>
   = \<lparr>st_di = 0, st_ti = 0, st_N_MAX = 2, st_data = [\<lparr>df_name = ''A'', df_trace = Some ([1, 1, 1, 1], 0)\<rparr>, \<lparr>df_name = ''B'', df_trace = Some ([0, 0, 0, 0, 0, 0], 86400)\<rparr>], st_templates = [],
        st_cc_len = 6, st_data_st = Bound (Some [([1, 1, 1, 1], 0), ([0, 0, 0, 0, 0, 0], 86400)]), st_temp_st = Unbound,
        st_n_detections = 0, st_matches = []\<rparr>"
    by (simp add: load_data_def Let_def retry_files read_bulk_data_def List.map_filter_simps nfl_unary)
  have lt: "load_templates retry_env
     \<lparr>st_di = 0, st_ti = 0, st_N_MAX = 2, st_data = [\<lparr>df_name = ''A'', df_trace = Some ([1, 1, 1, 1], 0)\<rparr>, \<lparr>df_name = ''B'', df_trace = Some ([0, 0, 0, 0, 0, 0], 86400)\<rparr>], st_templates = [],
        st_cc_len = 6, st_data_st = Bound (Some [([1, 1, 1, 1], 0), ([0, 0, 0, 0, 0, 0], 86400)]), st_temp_st = Unbound,
        st_n_detections = 0, st_matches = []\<rparr>
   = \<lparr>st_di = 0, st_ti = 0, st_N_MAX = 2, st_data = [\<lparr>df_name = ''A'', df_trace = Some ([1, 1, 1, 1], 0)\<rparr>, \<lparr>df_name = ''B'', df_trace = Some ([0, 0, 0, 0, 0, 0], 86400)\<rparr>], st_templates = [\<lparr>tp_file = ''t1'', tp_samples = [1, 1]\<rparr>],
        st_cc_len = 6, st_data_st = Bound (Some [([1, 1, 1, 1], 0), ([0, 0, 0, 0, 0, 0], 86400)]), st_temp_st = Bound [\<lparr>tp_file = ''t1'', tp_samples = [1, 1]\<rparr>],
        st_n_detections = 0, st_matches = []\<rparr>"
    by (simp add: load_templates_def Let_def retry_files read_templates_def)
  show ?thesis
    by (subst pass_recovers[OF ld _ lt _ refl])
       (simp_all add: retry_files recover_def chunk_sizes)
qed

lemma run_first_file:
  "orch_loop (Suc fuel) retry_env []
     \<lparr>st_di = 0, st_ti = 0, st_N_MAX = 1, st_data = [], st_templates = [],
        st_cc_len = 6, st_data_st = Unbound, st_temp_st = Unbound,
        st_n_detections = 0, st_matches = []\<rparr>
   = orch_loop fuel retry_env []
     \<lparr>st_di = 1, st_ti = 0, st_N_MAX = 1, st_data = [\<lparr>df_name = ''A'', df_trace = Some ([1, 1, 1, 1], 0)\<rparr>], st_templates = [\<lparr>tp_file = ''t1'', tp_samples = [1, 1]\<rparr>],
        st_cc_len = 4, st_data_st = Unbound, st_temp_st = Bound [\<lparr>tp_file = ''t1'', tp_samples = [1, 1]\<rparr>],
        st_n_detections = 0, st_matches = []\<rparr>"
proof -
  have ld: "load_data retry_env
     \<lparr>st_di = 0, st_ti = 0, st_N_MAX = 1, st_data = [], st_templates = [],
        st_cc_len = 6, st_data_st = Unbound, st_temp_st = Unbound,
        st_n_detections = 0, st_matches = []\<rparr>
   = \<lparr>st_di = 0, st_ti = 0, st_N_MAX = 1, st_data = [\<lparr>df_name = ''A'', df_trace = Some ([1, 1, 1, 1], 0)\<rparr>], st_templates = [],
        st_cc_len = 4, st_data_st = Bound (Some [([1, 1, 1, 1], 0)]), st_temp_st = Unbound,
        st_n_detections = 0, st_matches = []\<rparr>"
    by (simp add: load_data_def Let_def retry_files read_bulk_data_def List.map_filter_simps nfl_unary)
  have lt: "load_templates retry_env
     \<lparr>st_di = 0, st_ti = 0, st_N_MAX = 1, st_data = [\<lparr>df_name = ''A'', df_trace = Some ([1, 1, 1, 1], 0)\<rparr>], st_templates = [],
        st_cc_len = 4, st_data_st = Bound (Some [([1, 1, 1, 1], 0)]), st_temp_st = Unbound,
        st_n_detections = 0, st_matches = []\<rparr>
   = \<lparr>st_di = 0, st_ti = 0, st_N_MAX = 1, st_data = [\<lparr>df_name = ''A'', df_trace = Some ([1, 1, 1, 1], 0)\<rparr>], st_templates = [\<lparr>tp_file = ''t1'', tp_samples = [1, 1]\<rparr>],
        st_cc_len = 4, st_data_st = Bound (Some [([1, 1, 1, 1], 0)]), st_temp_st = Bound [\<lparr>tp_file = ''t1'', tp_samples = [1, 1]\<rparr>],
        st_n_detections = 0, st_matches = []\<rparr>"
    by (simp add: load_templates_def Let_def retry_files read_templates_def)
  have cp: "compute retry_env
     \<lparr>st_di = 0, st_ti = 0, st_N_MAX = 1, st_data = [\<lparr>df_name = ''A'', df_trace = Some ([1, 1, 1, 1], 0)\<rparr>], st_templates = [\<lparr>tp_file = ''t1'', tp_samples = [1, 1]\<rparr>],
        st_cc_len = 4, st_data_st = Bound (Some [([1, 1, 1, 1], 0)]), st_temp_st = Bound [\<lparr>tp_file = ''t1'', tp_samples = [1, 1]\<rparr>],
        st_n_detections = 0, st_matches = []\<rparr>
     [\<lparr>tp_file = ''t1'', tp_samples = [1, 1]\<rparr>] [([1, 1, 1, 1], 0)] = ([], Inr 0)"
    by (rule compute_short_fft) simp
  show ?thesis
    by (subst pass_computes[OF ld _ lt _ _ cp]) (simp_all add: advance_def retry_files)
qed

lemma run_second_file:
  "orch_loop (Suc fuel) retry_env []
     \<lparr>st_di = 1, st_ti = 0, st_N_MAX = 1, st_data = [\<lparr>df_name = ''A'', df_trace = Some ([1, 1, 1, 1], 0)\<rparr>], st_templates = [\<lparr>tp_file = ''t1'', tp_samples = [1, 1]\<rparr>],
        st_cc_len = 4, st_data_st = Unbound, st_temp_st = Bound [\<lparr>tp_file = ''t1'', tp_samples = [1, 1]\<rparr>],
        st_n_detections = 0, st_matches = []\<rparr>
   = Some (\<lparr>st_di = 1, st_ti = 0, st_N_MAX = 1, st_data = [\<lparr>df_name = ''B'', df_trace = Some ([0, 0, 0, 0, 0, 0], 86400)\<rparr>], st_templates = [\<lparr>tp_file = ''t1'', tp_samples = [1, 1]\<rparr>],
        st_cc_len = 6, st_data_st = Bound (Some [([0, 0, 0, 0, 0, 0], 86400)]), st_temp_st = Bound [\<lparr>tp_file = ''t1'', tp_samples = [1, 1]\<rparr>],
        st_n_detections = 0, st_matches = []\<rparr>, Returned)"
proof -
  have ld: "load_data retry_env
     \<lparr>st_di = 1, st_ti = 0, st_N_MAX = 1, st_data = [\<lparr>df_name = ''A'', df_trace = Some ([1, 1, 1, 1], 0)\<rparr>], st_templates = [\<lparr>tp_file = ''t1'', tp_samples = [1, 1]\<rparr>],
        st_cc_len = 4, st_data_st = Unbound, st_temp_st = Bound [\<lparr>tp_file = ''t1'', tp_samples = [1, 1]\<rparr>],
        st_n_detections = 0, st_matches = []\<rparr>
   = \<lparr>st_di = 1, st_ti = 0, st_N_MAX = 1, st_data = [\<lparr>df_name = ''B'', df_trace = Some ([0, 0, 0, 0, 0, 0], 86400)\<rparr>], st_templates = [],
        st_cc_len = 6, st_data_st = Bound (Some [([0, 0, 0, 0, 0, 0], 86400)]), st_temp_st = Bound [\<lparr>tp_file = ''t1'', tp_samples = [1, 1]\<rparr>],
        st_n_detections = 0, st_matches = []\<rparr>"
    by (simp add: load_data_def Let_def retry_files read_bulk_data_def List.map_filter_simps nfl_unary)
  have lt: "load_templates retry_env
     \<lparr>st_di = 1, st_ti = 0, st_N_MAX = 1, st_data = [\<lparr>df_name = ''B'', df_trace = Some ([0, 0, 0, 0, 0, 0], 86400)\<rparr>], st_templates = [],
        st_cc_len = 6, st_data_st = Bound (Some [([0, 0, 0, 0, 0, 0], 86400)]), st_temp_st = Bound [\<lparr>tp_file = ''t1'', tp_samples = [1, 1]\<rparr>],
        st_n_detections = 0, st_matches = []\<rparr>
   = \<lparr>st_di = 1, st_ti = 0, st_N_MAX = 1, st_data = [\<lparr>df_name = ''B'', df_trace = Some ([0, 0, 0, 0, 0, 0], 86400)\<rparr>], st_templates = [\<lparr>tp_file = ''t1'', tp_samples = [1, 1]\<rparr>],
        st_cc_len = 6, st_data_st = Bound (Some [([0, 0, 0, 0, 0, 0], 86400)]), st_temp_st = Bound [\<lparr>tp_file = ''t1'', tp_samples = [1, 1]\<rparr>],
        st_n_detections = 0, st_matches = []\<rparr>"
    by (simp add: load_templates_def Let_def retry_files read_templates_def)
  have cp: "compute retry_env
     \<lparr>st_di = 1, st_ti = 0, st_N_MAX = 1, st_data = [\<lparr>df_name = ''B'', df_trace = Some ([0, 0, 0, 0, 0, 0], 86400)\<rparr>], st_templates = [\<lparr>tp_file = ''t1'', tp_samples = [1, 1]\<rparr>],
        st_cc_len = 6, st_data_st = Bound (Some [([0, 0, 0, 0, 0, 0], 86400)]), st_temp_st = Bound [\<lparr>tp_file = ''t1'', tp_samples = [1, 1]\<rparr>],
        st_n_detections = 0, st_matches = []\<rparr>
     [\<lparr>tp_file = ''t1'', tp_samples = [1, 1]\<rparr>] [([0, 0, 0, 0, 0, 0], 86400)] = ([], Inr 0)"
    by (rule compute_silent) simp
  show ?thesis
    by (subst pass_computes[OF ld _ lt _ _ cp]) (simp_all add: advance_def retry_files)
qed


lemma match_templates_start:
  "match_templates fuel retry_env 2 oom =
     orch_loop fuel retry_env oom
       \<lparr>st_di = 0, st_ti = 0, st_N_MAX = 2, st_data = [], st_templates = [],
        st_cc_len = 0, st_data_st = Unbound, st_temp_st = Unbound,
        st_n_detections = 0, st_matches = []\<rparr>"
  by (simp add: match_templates_def retry_files chunk_sizes capacity_share_two
        float_overflow_def float_trunc_def)

text \<open>
  Claim C9 at a failing input. With a capacity of 2 the run without a failure
  correlates both day files in one chunk, with the transform length 6, and reports
  lag 0 of the first file with the correlation 0.75. With an allocation failure in the
  first pass the chunk size is balanced to 1, the first file is correlated alone with
  the transform length 4, its correlation is 0.5 at every lag, and no detection is
  reported: the two runs end with different detections.
\<close>

theorem retry_changes_detections:
  "map_option (\<lambda>(st, out). (st_matches st, out))
       (match_templates 3 retry_env 2 [])
     = Some ([\<lparr>det_file = ''t1'', det_start = 0, det_lag = 0, det_cc = Fin (3 / 4), det_mad = Fin 750000, det_amp = Fin 1\<rparr>], Returned) \<and>
   map_option (\<lambda>(st, out). (st_matches st, out))
       (match_templates 3 retry_env 2 [True])
     = Some ([], Returned)"
  unfolding numeral_3_eq_3
  by (simp only: match_templates_start run_plain run_fails_once run_first_file
        run_second_file) simp

text \<open>The recovery step in general: the pointers and the lines written so far stay,
  both caches are dropped; from a chunk size of 1 the balancing divides by zero, so
  the exit of line 192 is never reached.\<close>

lemma recover_keeps_pointers:
  assumes "recover e st = Inr st'"
  shows "st_di st' = st_di st \<and> st_ti st' = st_ti st \<and> st_matches st' = st_matches st \<and>
         st_data st' = [] \<and> st_templates st' = []"
  using assms by (auto simp: recover_def split: sum.splits if_splits)

lemma recover_at_one:
  assumes "st_N_MAX st = 1"
  shows "recover e st = Inl (Uncaught (Raised ZeroDivisionError))"
  using assms
  by (simp add: recover_def find_optimal_chunksize_def quot_round_up_def int_truediv_def)

end
